theory Spec2Isabelle
  imports Complex_Main "HOL-Library.Word" "HOL-Library.Sublist"
begin

section \<open>Strings\<close>

text \<open>
  A JavaScript string is a sequence of UTF-16 code units: \<open>length\<close> counts code units and
  \<open>slice\<close> cuts between them.  The literals of the source are ASCII; \<open>lit\<close> turns an
  Isabelle string literal into the code units of the same text.
\<close>

type_synonym codeunit = "16 word"
type_synonym jsstring = "codeunit list"

definition lit :: "string \<Rightarrow> jsstring" where
  "lit s = map (\<lambda>c. of_nat (of_char c)) s"

text \<open>
  \<open>String.prototype.trim\<close> removes the code points of the ECMAScript productions
  WhiteSpace (TAB, VT, FF, ZWNBSP and the Unicode space separators) and LineTerminator
  (LF, CR, LS, PS) from both ends.
\<close>

definition isWhiteSpace :: "codeunit \<Rightarrow> bool" where
  "isWhiteSpace c \<longleftrightarrow>
     c \<in> {0x0009, 0x000A, 0x000B, 0x000C, 0x000D, 0x0020, 0x00A0, 0x1680,
          0x2000, 0x2001, 0x2002, 0x2003, 0x2004, 0x2005, 0x2006, 0x2007, 0x2008,
          0x2009, 0x200A, 0x2028, 0x2029, 0x202F, 0x205F, 0x3000, 0xFEFF}"

definition trim :: "jsstring \<Rightarrow> jsstring" where
  "trim s = rev (dropWhile isWhiteSpace (rev (dropWhile isWhiteSpace s)))"

text \<open>\<open>Array.prototype.join\<close> on an array of strings.\<close>

fun join :: "jsstring \<Rightarrow> jsstring list \<Rightarrow> jsstring" where
  "join sep [] = []"
| "join sep [x] = x"
| "join sep (x # y # ys) = x @ sep @ join sep (y # ys)"

text \<open>
  \<open>Array.prototype.slice(start)\<close> with one argument: a negative start counts from the
  end and is clamped at the first element, a start beyond the end gives the empty array.
\<close>

definition sliceFrom :: "int \<Rightarrow> 'a list \<Rightarrow> 'a list" where
  "sliceFrom start xs =
     (let len = int (length xs);
          k = (if start < 0 then max (len + start) 0 else min start len)
      in drop (nat k) xs)"


section \<open>types.ts\<close>

datatype Ambience = Nature | Mechanical | Eerie | Calm | Chaos

record ActionOption =
  label :: jsstring
  actionPrompt :: jsstring

text \<open>
  \<open>LogicData\<close> is \<open>Omit<SceneData, "imageUrl" | "id">\<close>, the result type of
  \<open>generateSceneLogic\<close>; \<open>SceneData\<close> extends it with the two omitted fields
  (\<open>sceneId\<close> is the field \<open>id\<close>).
\<close>

record LogicData =
  narrative :: jsstring
  visualPrompt :: jsstring
  options :: "ActionOption list"
  ambience :: Ambience

record SceneData = LogicData +
  sceneId :: jsstring
  imageUrl :: "jsstring option"

record GameState =
  isPlaying :: bool
  currentScene :: "SceneData option"
  history :: "SceneData list"
  loading :: bool
  loadingMessage :: jsstring
  error :: "jsstring option"


section \<open>The Web Audio interface used by the audio manager\<close>

text \<open>
  The audio manager talks to the browser through an \<open>AudioContext\<close>.  The context is
  modelled by what the program can observe and do: the attributes \<open>state\<close>,
  \<open>currentTime\<close> and \<open>sampleRate\<close>, and the sequence of calls made on the context and
  on its nodes, in program order.  A node or buffer is named by the number it got when it
  was created.  A parameter value or a time is a rational number.  The samples that
  \<open>createNoiseBuffer\<close> draws from \<open>Math.random\<close> are not part of the model; the
  call \<open>FillRandom\<close> records that they were written.

  \<open>Start n\<close> is \<open>start()\<close>, which starts the node at once; \<open>Stop n w\<close> is
  \<open>stop(w)\<close>, where \<open>stop()\<close> is \<open>stop(0)\<close> and stops the node at once.
  \<open>resume()\<close> and \<open>suspend()\<close> of the context only request the change: the attribute
  \<open>state\<close> changes later, as an event of the environment.
\<close>

datatype ctxState = Suspended | Running | Closed

datatype oscType = Sine | Sawtooth

datatype filterType = Lowpass | Highpass | Bandpass

datatype param = P_gain | P_frequency | P_Q

datatype target = Destination | ToNode nat | ToParam nat param

datatype call =
    CreateGain nat
  | CreateOscillator nat
  | CreateBiquadFilter nat
  | CreateBufferSource nat
  | CreateBuffer nat nat nat nat
  | FillRandom nat nat
  | SetOscType nat oscType
  | SetFilterType nat filterType
  | SetBuffer nat nat
  | SetLoop nat bool
  | SetValue nat param rat
  | SetValueAtTime nat param rat rat
  | LinearRampToValueAtTime nat param rat rat
  | ExponentialRampToValueAtTime nat param rat rat
  | SetTargetAtTime nat param rat rat rat
  | CancelScheduledValues nat param rat
  | Connect nat target
  | Start nat
  | Stop nat rat
  | CtxResume
  | CtxSuspend

record AudioContext =
  state :: ctxState
  currentTime :: rat
  sampleRate :: nat
  nextId :: nat
  calls :: "call list"

text \<open>What \<open>new AudioContext()\<close> returns depends on the browser and the hardware.\<close>

record platform =
  newContextState :: ctxState
  hardwareSampleRate :: nat

definition newAudioContext :: "platform \<Rightarrow> AudioContext" where
  "newAudioContext p =
     \<lparr>state = newContextState p, currentTime = 0, sampleRate = hardwareSampleRate p,
      nextId = 0, calls = []\<rparr>"

definition emit :: "call list \<Rightarrow> AudioContext \<Rightarrow> AudioContext" where
  "emit cs c = c\<lparr>calls := calls c @ cs\<rparr>"

definition createNode :: "(nat \<Rightarrow> call) \<Rightarrow> AudioContext \<Rightarrow> nat \<times> AudioContext" where
  "createNode mk c = (nextId c, c\<lparr>nextId := Suc (nextId c), calls := calls c @ [mk (nextId c)]\<rparr>)"

definition createGain :: "AudioContext \<Rightarrow> nat \<times> AudioContext" where
  "createGain = createNode CreateGain"

definition createOscillator :: "AudioContext \<Rightarrow> nat \<times> AudioContext" where
  "createOscillator = createNode CreateOscillator"

definition createBiquadFilter :: "AudioContext \<Rightarrow> nat \<times> AudioContext" where
  "createBiquadFilter = createNode CreateBiquadFilter"

definition createBufferSource :: "AudioContext \<Rightarrow> nat \<times> AudioContext" where
  "createBufferSource = createNode CreateBufferSource"

definition createBuffer :: "nat \<Rightarrow> nat \<Rightarrow> nat \<Rightarrow> AudioContext \<Rightarrow> nat \<times> AudioContext" where
  "createBuffer channels len rate = createNode (\<lambda>b. CreateBuffer b channels len rate)"

text \<open>
  A source node sounds from its \<open>start()\<close> until a \<open>stop(w)\<close> whose time \<open>w\<close> has come.
\<close>

definition started :: "call list \<Rightarrow> nat \<Rightarrow> bool" where
  "started cs n \<longleftrightarrow> Start n \<in> set cs"

definition stoppedBy :: "call list \<Rightarrow> rat \<Rightarrow> nat \<Rightarrow> bool" where
  "stoppedBy cs t n \<longleftrightarrow> list_ex (\<lambda>e. case e of Stop m w \<Rightarrow> m = n \<and> w \<le> t | _ \<Rightarrow> False) cs"

definition runningIn :: "call list \<Rightarrow> rat \<Rightarrow> nat \<Rightarrow> bool" where
  "runningIn cs t n \<longleftrightarrow> started cs n \<and> \<not> stoppedBy cs t n"


section \<open>utils/audio.ts: the class AudioManager\<close>

text \<open>
  The fields of the class.  \<open>timeouts\<close> is not a field of the class: it holds the delays
  (in ms) of the callbacks that \<open>stop\<close> has registered with \<open>setTimeout\<close> and that have
  not run yet; the body of the callback is \<open>stop_timeout\<close>.
\<close>

record AudioManager =
  ctx :: "AudioContext option"
  masterGain :: "nat option"
  ambienceNode :: "nat option"
  ambienceGain :: "nat option"
  lfo :: "nat option"
  currentAmbienceType :: "Ambience option"
  timeouts :: "nat list"

definition newAudioManager :: AudioManager where
  "newAudioManager =
     \<lparr>ctx = None, masterGain = None, ambienceNode = None, ambienceGain = None, lfo = None,
      currentAmbienceType = None, timeouts = []\<rparr>"

definition init :: "platform \<Rightarrow> AudioManager \<Rightarrow> AudioManager" where
  "init p a =
     (let a1 =
        (case ctx a of
           None \<Rightarrow>
             let c = newAudioContext p;
                 (mg, c) = createGain c;
                 c = emit [SetValue mg P_gain (1/2), Connect mg Destination] c;
                 (ag, c) = createGain c;
                 c = emit [Connect ag (ToNode mg)] c
             in a\<lparr>ctx := Some c, masterGain := Some mg, ambienceGain := Some ag\<rparr>
         | Some c \<Rightarrow> a)
      in case ctx a1 of
           None \<Rightarrow> a1
         | Some c \<Rightarrow> if state c = Suspended then a1\<lparr>ctx := Some (emit [CtxResume] c)\<rparr> else a1)"

definition stop :: "AudioManager \<Rightarrow> AudioManager" where
  "stop a =
     (case ctx a of
        None \<Rightarrow> a
      | Some c \<Rightarrow>
          let c = (case masterGain a of
                     None \<Rightarrow> c
                   | Some mg \<Rightarrow> emit [SetTargetAtTime mg P_gain 0 (currentTime c) (1/10)] c)
          in a\<lparr>ctx := Some c, timeouts := timeouts a @ [200]\<rparr>)"

definition resume :: "AudioManager \<Rightarrow> AudioManager" where
  "resume a =
     (case ctx a of
        None \<Rightarrow> a
      | Some c \<Rightarrow>
          if state c = Suspended then
            let c = emit [CtxResume] c;
                c = (case masterGain a of
                       None \<Rightarrow> c
                     | Some mg \<Rightarrow> emit [SetTargetAtTime mg P_gain (1/2) (currentTime c) (1/10)] c)
            in a\<lparr>ctx := Some c\<rparr>
          else a)"

definition createNoiseBuffer :: "AudioManager \<Rightarrow> nat option \<times> AudioManager" where
  "createNoiseBuffer a =
     (case ctx a of
        None \<Rightarrow> (None, a)
      | Some c \<Rightarrow>
          let bufferSize = 2 * sampleRate c;
              (buffer, c) = createBuffer 1 bufferSize (sampleRate c) c;
              c = emit [FillRandom buffer bufferSize] c
          in (Some buffer, a\<lparr>ctx := Some c\<rparr>))"

definition playClick :: "platform \<Rightarrow> AudioManager \<Rightarrow> AudioManager" where
  "playClick p a0 =
     (let a = init p a0 in
      case (ctx a, masterGain a) of
        (Some c, Some mg) \<Rightarrow>
          let (osc, c) = createOscillator c;
              (gain, c) = createGain c;
              t = currentTime c;
              c = emit [SetOscType osc Sine,
                        SetValueAtTime osc P_frequency 800 t,
                        ExponentialRampToValueAtTime osc P_frequency 300 (t + 1/10),
                        SetValueAtTime gain P_gain (1/10) t,
                        ExponentialRampToValueAtTime gain P_gain (1/100) (t + 1/10),
                        Connect osc (ToNode gain),
                        Connect gain (ToNode mg),
                        Start osc,
                        Stop osc (t + 1/10)] c
          in a\<lparr>ctx := Some c\<rparr>
      | _ \<Rightarrow> a)"

definition playTransition :: "platform \<Rightarrow> AudioManager \<Rightarrow> AudioManager" where
  "playTransition p a0 =
     (let a = init p a0 in
      case (ctx a, masterGain a) of
        (Some _, Some mg) \<Rightarrow>
          (case createNoiseBuffer a of
             (None, a) \<Rightarrow> a
           | (Some buffer, a) \<Rightarrow>
               (case ctx a of
                  None \<Rightarrow> a
                | Some c \<Rightarrow>
                    let (source, c) = createBufferSource c;
                        c = emit [SetBuffer source buffer] c;
                        (filter, c) = createBiquadFilter c;
                        t = currentTime c;
                        c = emit [SetFilterType filter Lowpass,
                                  SetValueAtTime filter P_frequency 200 t,
                                  ExponentialRampToValueAtTime filter P_frequency 3000 (t + 1)] c;
                        (gain, c) = createGain c;
                        c = emit [SetValueAtTime gain P_gain 0 t,
                                  LinearRampToValueAtTime gain P_gain (1/5) (t + 1/2),
                                  LinearRampToValueAtTime gain P_gain 0 (t + 2),
                                  Connect source (ToNode filter),
                                  Connect filter (ToNode gain),
                                  Connect gain (ToNode mg),
                                  Start source] c
                    in a\<lparr>ctx := Some c\<rparr>))
      | _ \<Rightarrow> a)"

text \<open>
  \<open>try { node.stop(); } catch(e) {}\<close>: \<open>stop()\<close> throws on a node that was never
  started, and the exception is dropped.
\<close>

definition tryStop :: "nat \<Rightarrow> AudioManager \<Rightarrow> AudioManager" where
  "tryStop n a =
     (case ctx a of
        None \<Rightarrow> a
      | Some c \<Rightarrow> if started (calls c) n then a\<lparr>ctx := Some (emit [Stop n 0] c)\<rparr> else a)"

definition stopAmbience :: "AudioManager \<Rightarrow> AudioManager" where
  "stopAmbience a =
     (let a = (case ambienceNode a of
                 None \<Rightarrow> a
               | Some n \<Rightarrow> (tryStop n a)\<lparr>ambienceNode := None\<rparr>);
          a = (case lfo a of
                 None \<Rightarrow> a
               | Some l \<Rightarrow> (tryStop l a)\<lparr>lfo := None\<rparr>)
      in a)"

text \<open>The callback that \<open>stop\<close> registers with \<open>setTimeout(..., 200)\<close>.\<close>

definition stop_timeout :: "AudioManager \<Rightarrow> AudioManager" where
  "stop_timeout a0 =
     (let a = stopAmbience a0;
          a = (case ctx a of
                 None \<Rightarrow> a
               | Some c \<Rightarrow> if state c \<noteq> Closed then a\<lparr>ctx := Some (emit [CtxSuspend] c)\<rparr> else a)
      in a\<lparr>currentAmbienceType := None, timeouts := tl (timeouts a)\<rparr>)"

text \<open>The three branches of \<open>setAmbience\<close>; \<open>ag\<close> is \<open>this.ambienceGain\<close>, \<open>c\<close> is \<open>this.ctx\<close>.\<close>

definition buildMechanical :: "nat \<Rightarrow> AudioContext \<Rightarrow> AudioManager \<Rightarrow> AudioManager" where
  "buildMechanical ag c a =
     (let (osc, c) = createOscillator c;
          c = emit [SetOscType osc Sawtooth, SetValue osc P_frequency 50] c;
          (lfo', c) = createOscillator c;
          c = emit [SetValue lfo' P_frequency (1/2)] c;
          (lfoGain, c) = createGain c;
          c = emit [SetValue lfoGain P_gain 500] c;
          (filter, c) = createBiquadFilter c;
          c = emit [SetFilterType filter Lowpass,
                    SetValue filter P_frequency 200,
                    Connect lfo' (ToNode lfoGain),
                    Connect lfoGain (ToParam filter P_frequency),
                    Connect osc (ToNode filter),
                    Connect filter (ToNode ag),
                    Start osc,
                    Start lfo'] c
      in a\<lparr>ctx := Some c, ambienceNode := Some osc, lfo := Some lfo'\<rparr>)"

definition buildEerie :: "nat \<Rightarrow> AudioContext \<Rightarrow> AudioManager \<Rightarrow> AudioManager" where
  "buildEerie ag c a =
     (let (osc1, c) = createOscillator c;
          c = emit [SetOscType osc1 Sine, SetValue osc1 P_frequency 150] c;
          (osc2, c) = createOscillator c;
          c = emit [SetOscType osc2 Sine, SetValue osc2 P_frequency 154] c;
          (gain, c) = createGain c;
          c = emit [SetValue gain P_gain (1/10),
                    Connect osc1 (ToNode gain),
                    Connect osc2 (ToNode gain),
                    Connect gain (ToNode ag),
                    Start osc1,
                    Start osc2] c;
          a = a\<lparr>ambienceNode := Some osc1\<rparr>;
          c = emit [Stop osc2 (currentTime c + 600)] c
      in a\<lparr>ctx := Some c\<rparr>)"

definition buildNoise :: "Ambience \<Rightarrow> nat \<Rightarrow> AudioManager \<Rightarrow> AudioManager" where
  "buildNoise ty ag a0 =
     (case createNoiseBuffer a0 of
        (None, a) \<Rightarrow> a
      | (Some buffer, a) \<Rightarrow>
          (case ctx a of
             None \<Rightarrow> a
           | Some c \<Rightarrow>
               let (source, c) = createBufferSource c;
                   c = emit [SetBuffer source buffer, SetLoop source True] c;
                   (filter, c) = createBiquadFilter c;
                   (c, a) =
                     (case ty of
                        Nature \<Rightarrow>
                          let c = emit [SetFilterType filter Bandpass,
                                        SetValue filter P_frequency 400,
                                        SetValue filter P_Q (1/2)] c;
                              (lfo', c) = createOscillator c;
                              c = emit [SetValue lfo' P_frequency (1/10)] c;
                              (lfoGain, c) = createGain c;
                              c = emit [SetValue lfoGain P_gain 200,
                                        Connect lfo' (ToNode lfoGain),
                                        Connect lfoGain (ToParam filter P_frequency),
                                        Start lfo'] c
                          in (c, a\<lparr>lfo := Some lfo'\<rparr>)
                      | Chaos \<Rightarrow>
                          (emit [SetFilterType filter Highpass,
                                 SetValue filter P_frequency 1000] c, a)
                      | _ \<Rightarrow>
                          (emit [SetFilterType filter Lowpass,
                                 SetValue filter P_frequency 300] c, a));
                   c = emit [Connect source (ToNode filter),
                             Connect filter (ToNode ag),
                             Start source] c
               in a\<lparr>ctx := Some c, ambienceNode := Some source\<rparr>))"

definition setAmbience :: "platform \<Rightarrow> Ambience \<Rightarrow> AudioManager \<Rightarrow> AudioManager" where
  "setAmbience p ty a0 =
     (let a = resume (init p a0) in
      case (ctx a, ambienceGain a) of
        (Some _, Some ag) \<Rightarrow>
          if currentAmbienceType a = Some ty then a
          else
            let a = stopAmbience (a\<lparr>currentAmbienceType := Some ty\<rparr>) in
            (case ctx a of
               None \<Rightarrow> a
             | Some c \<Rightarrow>
                 let t = currentTime c;
                     c = emit [CancelScheduledValues ag P_gain t,
                               SetValueAtTime ag P_gain 0 t,
                               LinearRampToValueAtTime ag P_gain (3/10) (t + 2)] c;
                     a = a\<lparr>ctx := Some c\<rparr>
                 in (case ty of
                       Mechanical \<Rightarrow> buildMechanical ag c a
                     | Eerie \<Rightarrow> buildEerie ag c a
                     | _ \<Rightarrow> buildNoise ty ag a))
      | _ \<Rightarrow> a)"

text \<open>
  The environment: time passes, and the browser changes the state of the context
  (a requested resume or suspend takes effect, or the browser suspends the context).
\<close>

definition advanceTime :: "rat \<Rightarrow> AudioManager \<Rightarrow> AudioManager" where
  "advanceTime dt a = a\<lparr>ctx := map_option (\<lambda>c. c\<lparr>currentTime := currentTime c + dt\<rparr>) (ctx a)\<rparr>"

definition stateChange :: "ctxState \<Rightarrow> AudioManager \<Rightarrow> AudioManager" where
  "stateChange s a = a\<lparr>ctx := map_option (\<lambda>c. c\<lparr>state := s\<rparr>) (ctx a)\<rparr>"

text \<open>The states of the audio manager that its methods and the environment can produce.\<close>

inductive reachable :: "platform \<Rightarrow> AudioManager \<Rightarrow> bool" for p :: platform where
  r_new: "reachable p newAudioManager"
| r_init: "reachable p a \<Longrightarrow> reachable p (init p a)"
| r_stop: "reachable p a \<Longrightarrow> reachable p (stop a)"
| r_stop_timeout: "reachable p a \<Longrightarrow> timeouts a \<noteq> [] \<Longrightarrow> reachable p (stop_timeout a)"
| r_resume: "reachable p a \<Longrightarrow> reachable p (resume a)"
| r_createNoiseBuffer: "reachable p a \<Longrightarrow> reachable p (snd (createNoiseBuffer a))"
| r_playClick: "reachable p a \<Longrightarrow> reachable p (playClick p a)"
| r_playTransition: "reachable p a \<Longrightarrow> reachable p (playTransition p a)"
| r_stopAmbience: "reachable p a \<Longrightarrow> reachable p (stopAmbience a)"
| r_setAmbience: "reachable p a \<Longrightarrow> reachable p (setAmbience p ty a)"
| r_advanceTime: "reachable p a \<Longrightarrow> 0 \<le> dt \<Longrightarrow> reachable p (advanceTime dt a)"
| r_stateChange: "reachable p a \<Longrightarrow> reachable p (stateChange s a)"


subsection \<open>Well-formed states and the calls of a method\<close>

text \<open>
  The node and buffer numbers a call mentions.  In a well-formed context the time is not
  negative and every number in the calls was given out by the context; in a well-formed
  audio manager the fields are either all unset (no context yet) or the two gain nodes
  exist and every node a field names was given out by the context.
\<close>

fun targetIds :: "target \<Rightarrow> nat list" where
  "targetIds Destination = []"
| "targetIds (ToNode n) = [n]"
| "targetIds (ToParam n _) = [n]"

fun callIds :: "call \<Rightarrow> nat list" where
  "callIds (CreateGain n) = [n]"
| "callIds (CreateOscillator n) = [n]"
| "callIds (CreateBiquadFilter n) = [n]"
| "callIds (CreateBufferSource n) = [n]"
| "callIds (CreateBuffer b _ _ _) = [b]"
| "callIds (FillRandom b _) = [b]"
| "callIds (SetOscType n _) = [n]"
| "callIds (SetFilterType n _) = [n]"
| "callIds (SetBuffer n b) = [n, b]"
| "callIds (SetLoop n _) = [n]"
| "callIds (SetValue n _ _) = [n]"
| "callIds (SetValueAtTime n _ _ _) = [n]"
| "callIds (LinearRampToValueAtTime n _ _ _) = [n]"
| "callIds (ExponentialRampToValueAtTime n _ _ _) = [n]"
| "callIds (SetTargetAtTime n _ _ _ _) = [n]"
| "callIds (CancelScheduledValues n _ _) = [n]"
| "callIds (Connect n tgt) = n # targetIds tgt"
| "callIds (Start n) = [n]"
| "callIds (Stop n _) = [n]"
| "callIds CtxResume = []"
| "callIds CtxSuspend = []"

definition knownCalls :: "nat \<Rightarrow> call list \<Rightarrow> bool" where
  "knownCalls k cs \<longleftrightarrow> list_all (\<lambda>e. list_all (\<lambda>n. n < k) (callIds e)) cs"

definition wfContext :: "AudioContext \<Rightarrow> bool" where
  "wfContext c \<longleftrightarrow> 0 \<le> currentTime c \<and> knownCalls (nextId c) (calls c)"

definition known :: "AudioContext \<Rightarrow> nat option \<Rightarrow> bool" where
  "known c x \<longleftrightarrow> (case x of None \<Rightarrow> True | Some n \<Rightarrow> n < nextId c)"

definition wfAudio :: "AudioManager \<Rightarrow> bool" where
  "wfAudio a \<longleftrightarrow>
     (case ctx a of
        None \<Rightarrow> masterGain a = None \<and> ambienceGain a = None \<and> ambienceNode a = None \<and>
                lfo a = None \<and> currentAmbienceType a = None
      | Some c \<Rightarrow> wfContext c \<and> masterGain a \<noteq> None \<and> ambienceGain a \<noteq> None \<and>
                  known c (masterGain a) \<and> known c (ambienceGain a) \<and>
                  known c (ambienceNode a) \<and> known c (lfo a))"

text \<open>The nodes the audio manager tracks for teardown.\<close>

definition tracked :: "AudioManager \<Rightarrow> nat \<Rightarrow> bool" where
  "tracked a k \<longleftrightarrow> ambienceNode a = Some k \<or> lfo a = Some k"

text \<open>
  Kinds of calls, and the calls that parts of \<open>setAmbience\<close> make: \<open>resumeCalls\<close> those of
  \<open>init\<close> and \<open>resume\<close> on an existing context, \<open>teardownCalls\<close> those of
  \<open>stopAmbience\<close>, \<open>rampCalls\<close> the reset of the ambience gain, \<open>eerieCalls\<close> and
  \<open>noiseCalls\<close> those of the eerie branch and of the noise branch for calm and chaos.
\<close>

fun isCreate :: "call \<Rightarrow> bool" where
  "isCreate (CreateGain _) = True"
| "isCreate (CreateOscillator _) = True"
| "isCreate (CreateBiquadFilter _) = True"
| "isCreate (CreateBufferSource _) = True"
| "isCreate (CreateBuffer _ _ _ _) = True"
| "isCreate _ = False"

fun isStop :: "call \<Rightarrow> bool" where
  "isStop (Stop _ _) = True"
| "isStop _ = False"

definition resumeCalls :: "nat \<Rightarrow> AudioContext \<Rightarrow> call list" where
  "resumeCalls mg c =
     (if state c = Suspended
      then [CtxResume, CtxResume, SetTargetAtTime mg P_gain (1/2) (currentTime c) (1/10)]
      else [])"

definition teardownCalls :: "AudioManager \<Rightarrow> call list" where
  "teardownCalls a =
     (case ctx a of
        None \<Rightarrow> []
      | Some c \<Rightarrow>
          (case ambienceNode a of
             None \<Rightarrow> []
           | Some n \<Rightarrow> if started (calls c) n then [Stop n 0] else []) @
          (case lfo a of
             None \<Rightarrow> []
           | Some l \<Rightarrow> if started (calls c) l then [Stop l 0] else []))"

definition rampCalls :: "nat \<Rightarrow> rat \<Rightarrow> call list" where
  "rampCalls ag t =
     [CancelScheduledValues ag P_gain t, SetValueAtTime ag P_gain 0 t,
      LinearRampToValueAtTime ag P_gain (3/10) (t + 2)]"

definition eerieCalls :: "nat \<Rightarrow> nat \<Rightarrow> rat \<Rightarrow> call list" where
  "eerieCalls n ag t =
     [CreateOscillator n, SetOscType n Sine, SetValue n P_frequency 150,
      CreateOscillator (n + 1), SetOscType (n + 1) Sine, SetValue (n + 1) P_frequency 154,
      CreateGain (n + 2), SetValue (n + 2) P_gain (1/10),
      Connect n (ToNode (n + 2)), Connect (n + 1) (ToNode (n + 2)), Connect (n + 2) (ToNode ag),
      Start n, Start (n + 1), Stop (n + 1) (t + 600)]"

definition noiseCalls :: "Ambience \<Rightarrow> nat \<Rightarrow> nat \<Rightarrow> nat \<Rightarrow> call list" where
  "noiseCalls ty n ag rate =
     [CreateBuffer n 1 (2 * rate) rate, FillRandom n (2 * rate),
      CreateBufferSource (n + 1), SetBuffer (n + 1) n, SetLoop (n + 1) True,
      CreateBiquadFilter (n + 2)] @
     (if ty = Chaos
      then [SetFilterType (n + 2) Highpass, SetValue (n + 2) P_frequency 1000]
      else [SetFilterType (n + 2) Lowpass, SetValue (n + 2) P_frequency 300]) @
     [Connect (n + 1) (ToNode (n + 2)), Connect (n + 2) (ToNode ag), Start (n + 1)]"


section \<open>services/gemini.ts and the rest of the environment\<close>

text \<open>
  \<open>generateSceneLogic\<close> and \<open>generateSceneImage\<close> send one request each to a hosted model
  and either return its answer or throw; \<open>crypto.randomUUID\<close> is the browser's.  What
  they answer is not decided by this program, so a run of a handler is given the
  environment it meets: the result of each call it may make, with \<open>Inl\<close> for a thrown
  value.
\<close>

datatype exn = Exn jsstring

record env =
  browser :: platform
  generateSceneLogic :: "jsstring \<Rightarrow> jsstring \<Rightarrow> exn + LogicData"
  generateSceneImage :: "jsstring \<Rightarrow> exn + jsstring"
  randomUUID :: "exn + jsstring"


section \<open>App.tsx: the component App\<close>

text \<open>
  The state of the application: the two \<open>useState\<close> cells \<open>input\<close> and \<open>gameState\<close>,
  the audio manager \<open>audio\<close>, the generation requests sent so far (in order, with their
  arguments) and what was written with \<open>console.error\<close>.  A handler runs from its call
  to its end without another handler in between, so the \<open>gameState\<close> its closure reads is
  the state at the call.
\<close>

datatype request = LogicRequest jsstring jsstring | ImageRequest jsstring

record App =
  input :: jsstring
  gameState :: GameState
  audio :: AudioManager
  requests :: "request list"
  console :: "exn list"

definition initialGameState :: GameState where
  "initialGameState =
     \<lparr>isPlaying = False, currentScene = None, history = [], loading = False,
      loadingMessage = [], error = None\<rparr>"

definition initialApp :: App where
  "initialApp =
     \<lparr>input = [], gameState = initialGameState, audio = newAudioManager, requests = [],
      console = []\<rparr>"

definition setGameState :: "(GameState \<Rightarrow> GameState) \<Rightarrow> App \<Rightarrow> App" where
  "setGameState f w = w\<lparr>gameState := f (gameState w)\<rparr>"

definition setInput :: "jsstring \<Rightarrow> App \<Rightarrow> App" where
  "setInput s w = w\<lparr>input := s\<rparr>"

definition request :: "request \<Rightarrow> App \<Rightarrow> App" where
  "request r w = w\<lparr>requests := requests w @ [r]\<rparr>"

definition newScene :: "jsstring \<Rightarrow> LogicData \<Rightarrow> jsstring \<Rightarrow> SceneData" where
  "newScene uuid logicData base64Image =
     \<lparr>narrative = narrative logicData, visualPrompt = visualPrompt logicData,
      options = options logicData, ambience = ambience logicData,
      sceneId = uuid, imageUrl = Some base64Image\<rparr>"

definition startContext :: jsstring where
  "startContext = lit ''Start of a new adventure. The player has just entered.''"

definition startError :: jsstring where
  "startError = lit ''Simulation failed. Connection interrupted. Try again.''"

definition handleStartGame_catch :: "exn \<Rightarrow> App \<Rightarrow> App" where
  "handleStartGame_catch err w =
     setGameState (\<lambda>prev. prev\<lparr>loading := False, error := Some startError\<rparr>)
       (w\<lparr>console := console w @ [err]\<rparr>)"

definition handleStartGame :: "env \<Rightarrow> jsstring \<Rightarrow> App \<Rightarrow> App" where
  "handleStartGame e initialPrompt w0 =
     (if trim initialPrompt = [] then w0
      else
        (let w = w0\<lparr>audio := playClick (browser e) (resume (init (browser e) (audio w0)))\<rparr>;
             w = setGameState (\<lambda>prev. prev\<lparr>isPlaying := True, loading := True,
                     loadingMessage := lit ''Initializing Neural Dream Engine...'',
                     error := None\<rparr>) w;
             w = setGameState (\<lambda>prev. prev\<lparr>loadingMessage := lit ''Weaving the Narrative...''\<rparr>) w;
             w = request (LogicRequest initialPrompt startContext) w
         in (case generateSceneLogic e initialPrompt startContext of
               Inl err \<Rightarrow> handleStartGame_catch err w
             | Inr logicData \<Rightarrow>
                 (let w = setGameState (\<lambda>prev. prev\<lparr>loadingMessage := lit ''Materializing World...''\<rparr>) w;
                      w = request (ImageRequest (visualPrompt logicData)) w
                  in (case generateSceneImage e (visualPrompt logicData) of
                        Inl err \<Rightarrow> handleStartGame_catch err w
                      | Inr base64Image \<Rightarrow>
                          (case randomUUID e of
                             Inl err \<Rightarrow> handleStartGame_catch err w
                           | Inr uuid \<Rightarrow>
                               (let scene = newScene uuid logicData base64Image in
                                setGameState (\<lambda>prev. prev\<lparr>currentScene := Some scene,
                                    history := [scene], loading := False\<rparr>) w)))))))"

definition advanceError :: jsstring where
  "advanceError = lit ''Lost connection to the dream stream. Please retry.''"

definition handleOptionSelect_catch :: "App \<Rightarrow> App" where
  "handleOptionSelect_catch w =
     setGameState (\<lambda>prev. prev\<lparr>loading := False, error := Some advanceError\<rparr>) w"

text \<open>\<open>gameState.history.slice(-3).map(h => h.narrative).join(" -> ")\<close>\<close>

definition recentHistory :: "SceneData list \<Rightarrow> jsstring" where
  "recentHistory h = join (lit '' -> '') (map narrative (sliceFrom (- 3) h))"

definition handleOptionSelect :: "env \<Rightarrow> ActionOption \<Rightarrow> App \<Rightarrow> App" where
  "handleOptionSelect e opt w0 =
     (case currentScene (gameState w0) of
        None \<Rightarrow> w0
      | Some _ \<Rightarrow>
          (let w = setGameState (\<lambda>prev. prev\<lparr>loading := True,
                       loadingMessage := lit ''Choosing path: '' @ label opt @ lit ''...'',
                       error := None\<rparr>) w0;
               context = recentHistory (history (gameState w0));
               w = setGameState (\<lambda>prev. prev\<lparr>loadingMessage := lit ''Unfolding Destiny...''\<rparr>) w;
               w = request (LogicRequest (actionPrompt opt) context) w
           in (case generateSceneLogic e (actionPrompt opt) context of
                 Inl err \<Rightarrow> handleOptionSelect_catch w
               | Inr logicData \<Rightarrow>
                   (let w = setGameState (\<lambda>prev. prev\<lparr>loadingMessage := lit ''Rendering Reality...''\<rparr>) w;
                        w = request (ImageRequest (visualPrompt logicData)) w
                    in (case generateSceneImage e (visualPrompt logicData) of
                          Inl err \<Rightarrow> handleOptionSelect_catch w
                        | Inr base64Image \<Rightarrow>
                            (case randomUUID e of
                               Inl err \<Rightarrow> handleOptionSelect_catch w
                             | Inr uuid \<Rightarrow>
                                 (let scene = newScene uuid logicData base64Image in
                                  setGameState (\<lambda>prev. prev\<lparr>currentScene := Some scene,
                                      history := history prev @ [scene], loading := False\<rparr>) w)))))))"

definition resetGame :: "env \<Rightarrow> App \<Rightarrow> App" where
  "resetGame e w0 =
     (let w = w0\<lparr>audio := stop (playClick (browser e) (audio w0))\<rparr>;
          w = setGameState (\<lambda>_. \<lparr>isPlaying = False, currentScene = None, history = [],
                  loading = False, loadingMessage = [], error = None\<rparr>) w
      in setInput [] w)"

text \<open>The button of the error overlay.\<close>

definition dismissError :: "App \<Rightarrow> App" where
  "dismissError w = setGameState (\<lambda>prev. prev\<lparr>loading := False, error := None\<rparr>) w"

text \<open>
  The operations of the orchestrator, each with the environment its run meets, and a
  session as a sequence of them.
\<close>

datatype action =
    DoStart env jsstring
  | DoAdvance env ActionOption
  | DoReset env
  | DoDismissError
  | DoSetInput jsstring

fun step :: "action \<Rightarrow> App \<Rightarrow> App" where
  "step (DoStart e prompt) w = handleStartGame e prompt w"
| "step (DoAdvance e opt) w = handleOptionSelect e opt w"
| "step (DoReset e) w = resetGame e w"
| "step DoDismissError w = dismissError w"
| "step (DoSetInput s) w = setInput s w"

definition run :: "action list \<Rightarrow> App \<Rightarrow> App" where
  "run acts w = fold step acts w"

text \<open>
  A Start or an Advance is successful when its guard lets it through and none of its
  three calls throws.
\<close>

definition startSucceeds :: "env \<Rightarrow> jsstring \<Rightarrow> bool" where
  "startSucceeds e prompt \<longleftrightarrow>
     trim prompt \<noteq> [] \<and>
     (case generateSceneLogic e prompt startContext of
        Inl _ \<Rightarrow> False
      | Inr logicData \<Rightarrow>
          (case generateSceneImage e (visualPrompt logicData) of
             Inl _ \<Rightarrow> False
           | Inr _ \<Rightarrow> (case randomUUID e of Inl _ \<Rightarrow> False | Inr _ \<Rightarrow> True)))"

definition advanceSucceeds :: "env \<Rightarrow> ActionOption \<Rightarrow> App \<Rightarrow> bool" where
  "advanceSucceeds e opt w \<longleftrightarrow>
     currentScene (gameState w) \<noteq> None \<and>
     (case generateSceneLogic e (actionPrompt opt) (recentHistory (history (gameState w))) of
        Inl _ \<Rightarrow> False
      | Inr logicData \<Rightarrow>
          (case generateSceneImage e (visualPrompt logicData) of
             Inl _ \<Rightarrow> False
           | Inr _ \<Rightarrow> (case randomUUID e of Inl _ \<Rightarrow> False | Inr _ \<Rightarrow> True)))"

fun successfulAdvances :: "action list \<Rightarrow> App \<Rightarrow> nat" where
  "successfulAdvances [] w = 0"
| "successfulAdvances (DoAdvance e opt # acts) w =
     (if advanceSucceeds e opt w then 1 else 0) + successfulAdvances acts (step (DoAdvance e opt) w)"
| "successfulAdvances (act # acts) w = successfulAdvances acts (step act w)"

fun isStartOrReset :: "action \<Rightarrow> bool" where
  "isStartOrReset (DoStart _ _) = True"
| "isStartOrReset (DoReset _) = True"
| "isStartOrReset _ = False"

text \<open>
  An Advance in which a generation request throws: the request was sent (the guard let
  the call through) and its result is a thrown value.
\<close>

definition advanceRequestThrows :: "env \<Rightarrow> ActionOption \<Rightarrow> App \<Rightarrow> bool" where
  "advanceRequestThrows e opt w \<longleftrightarrow>
     currentScene (gameState w) \<noteq> None \<and>
     (case generateSceneLogic e (actionPrompt opt) (recentHistory (history (gameState w))) of
        Inl _ \<Rightarrow> True
      | Inr logicData \<Rightarrow>
          (case generateSceneImage e (visualPrompt logicData) of
             Inl _ \<Rightarrow> True
           | Inr _ \<Rightarrow> False))"

text \<open>
  The context string as the specification words it: the narrative texts of the last
  \<open>min 3 (length h)\<close> entries of the history, in order, joined with the separator.
  Joined with a separator means: the first text, and then every further text with the
  separator before it.
\<close>

definition lastEntries :: "nat \<Rightarrow> 'a list \<Rightarrow> 'a list" where
  "lastEntries k xs = rev (take k (rev xs))"

definition joined :: "jsstring \<Rightarrow> jsstring list \<Rightarrow> jsstring" where
  "joined sep xs = (case xs of [] \<Rightarrow> [] | x # rest \<Rightarrow> x @ concat (map (\<lambda>y. sep @ y) rest))"

definition specContext :: "SceneData list \<Rightarrow> jsstring" where
  "specContext h = joined (lit '' -> '') (map narrative (lastEntries (min 3 (length h)) h))"


section \<open>components/GameCanvas.tsx: the component TypewriterText\<close>

text \<open>
  The component holds the state cell \<open>displayedText\<close>.  Its effect sets the cell to the
  empty string, binds \<open>i = 0\<close> and registers an interval timer of 30 ms whose callback
  closes over \<open>twText\<close> (the prop \<open>text\<close>), \<open>onComplete\<close> and \<open>i\<close>; the cleanup of
  the effect clears that timer.  React runs the cleanup and then the effect again when
  \<open>text\<close> or \<open>onComplete\<close> changes.  \<open>intervals\<close> are the timers of the component that
  are registered and not cleared, by id; \<open>intervalId\<close> is the id the cleanup holds.  A
  callback \<open>onComplete\<close> is named by a number, and \<open>completed\<close> lists the callbacks that
  were called, in order.
\<close>

record interval =
  twText :: jsstring
  onComplete :: "nat option"
  i :: nat

record TypewriterText =
  displayedText :: jsstring
  intervals :: "(nat \<times> interval) list"
  nextIntervalId :: nat
  intervalId :: "nat option"
  completed :: "nat list"

definition newTypewriterText :: TypewriterText where
  "newTypewriterText =
     \<lparr>displayedText = [], intervals = [], nextIntervalId = 0, intervalId = None,
      completed = []\<rparr>"

definition clearInterval :: "nat \<Rightarrow> TypewriterText \<Rightarrow> TypewriterText" where
  "clearInterval k tw = tw\<lparr>intervals := filter (\<lambda>(k', _). k' \<noteq> k) (intervals tw)\<rparr>"

definition effect :: "jsstring \<Rightarrow> nat option \<Rightarrow> TypewriterText \<Rightarrow> TypewriterText" where
  "effect t oc tw =
     (let tw = tw\<lparr>displayedText := []\<rparr>;
          k = nextIntervalId tw
      in tw\<lparr>intervals := intervals tw @ [(k, \<lparr>twText = t, onComplete = oc, i = 0\<rparr>)],
            nextIntervalId := Suc k, intervalId := Some k\<rparr>)"

definition cleanup :: "TypewriterText \<Rightarrow> TypewriterText" where
  "cleanup tw = (case intervalId tw of None \<Rightarrow> tw | Some k \<Rightarrow> clearInterval k tw)"

text \<open>The callback of the interval timer \<open>k\<close>; \<open>text.slice(0, i + 1)\<close> is \<open>take (i + 1) text\<close>.\<close>

definition callback :: "nat \<Rightarrow> TypewriterText \<Rightarrow> TypewriterText" where
  "callback k tw =
     (case map_of (intervals tw) k of
        None \<Rightarrow> tw
      | Some iv \<Rightarrow>
          if i iv < length (twText iv) then
            tw\<lparr>displayedText := take (i iv + 1) (twText iv),
               intervals := map (\<lambda>(k', iv'). if k' = k then (k', iv'\<lparr>i := i iv' + 1\<rparr>) else (k', iv'))
                              (intervals tw)\<rparr>
          else
            (let tw = clearInterval k tw in
             case onComplete iv of
               None \<Rightarrow> tw
             | Some cb \<Rightarrow> tw\<lparr>completed := completed tw @ [cb]\<rparr>))"

text \<open>30 ms pass: every registered interval timer fires once.\<close>

definition tick :: "TypewriterText \<Rightarrow> TypewriterText" where
  "tick tw = fold callback (map fst (intervals tw)) tw"

definition ticks :: "nat \<Rightarrow> TypewriterText \<Rightarrow> TypewriterText" where
  "ticks n tw = (tick ^^ n) tw"

text \<open>The component is mounted with a text; later its props change.\<close>

definition mount :: "jsstring \<Rightarrow> nat option \<Rightarrow> TypewriterText" where
  "mount t oc = effect t oc newTypewriterText"

definition restart :: "jsstring \<Rightarrow> nat option \<Rightarrow> TypewriterText \<Rightarrow> TypewriterText" where
  "restart t oc tw = effect t oc (cleanup tw)"


section \<open>components/GameCanvas.tsx: the component GameCanvas\<close>

text \<open>
  \<open>GameCanvas\<close> is the one caller of \<open>TypewriterText\<close>.  Of its state the model keeps
  the cells \<open>showUI\<close> and \<open>textComplete\<close> and the narrative of the active scene.  While
  \<open>showUI\<close> holds, a render returns the element
  \<open><TypewriterText text={activeScene.narrative} onComplete={() => setTextComplete(true)} />\<close>:
  the arrow function is a new function object in every such render, named here by the
  number \<open>nextClosure\<close>.  A first render with the element mounts the child; a later one
  hands the child a changed \<open>onComplete\<close>, so React runs the cleanup of the child's
  effect and then the effect again.  A render without the element unmounts the child.
  A state setter called with the value its cell already holds asks for no render.
  \<open>completions\<close> lists the closures that were called, in order; each call is a call of
  \<open>setTextComplete(true)\<close>.
\<close>

record GameCanvas =
  activeNarrative :: jsstring
  showUI :: bool
  textComplete :: bool
  nextClosure :: nat
  typewriter :: "TypewriterText option"
  completions :: "nat list"

definition render :: "GameCanvas \<Rightarrow> GameCanvas" where
  "render gc =
     (if showUI gc then
        (let cb = nextClosure gc in
         gc\<lparr>nextClosure := Suc cb,
            typewriter := Some (case typewriter gc of
                                  None \<Rightarrow> mount (activeNarrative gc) (Some cb)
                                | Some tw \<Rightarrow> restart (activeNarrative gc) (Some cb) tw)\<rparr>)
      else gc\<lparr>typewriter := None\<rparr>)"

definition setShowUI :: "bool \<Rightarrow> GameCanvas \<Rightarrow> GameCanvas" where
  "setShowUI b gc = (if showUI gc = b then gc else render (gc\<lparr>showUI := b\<rparr>))"

definition setTextComplete :: "bool \<Rightarrow> GameCanvas \<Rightarrow> GameCanvas" where
  "setTextComplete b gc = (if textComplete gc = b then gc else render (gc\<lparr>textComplete := b\<rparr>))"

text \<open>
  The component once the effect on \<open>scene\<close> has run for a scene with the narrative \<open>t\<close>:
  \<open>setShowUI(false)\<close> and \<open>setTextComplete(false)\<close> were called and the timer of 2000 ms
  is pending.  \<open>uiTimer\<close> is the callback of that timer.
\<close>

definition onStage :: "jsstring \<Rightarrow> GameCanvas" where
  "onStage t =
     \<lparr>activeNarrative = t, showUI = False, textComplete = False, nextClosure = 0,
      typewriter = None, completions = []\<rparr>"

definition uiTimer :: "GameCanvas \<Rightarrow> GameCanvas" where
  "uiTimer gc = setShowUI True gc"

text \<open>
  30 ms pass: the interval timers of the child fire.  The closures they call set
  \<open>textComplete\<close>, and the render this asks for takes place when the callback has
  returned.
\<close>

definition timersFire :: "GameCanvas \<Rightarrow> GameCanvas" where
  "timersFire gc =
     (case typewriter gc of
        None \<Rightarrow> gc
      | Some tw \<Rightarrow>
          (let tw' = tick tw;
               called = drop (length (completed tw)) (completed tw');
               gc = gc\<lparr>typewriter := Some tw', completions := completions gc @ called\<rparr>
           in fold (\<lambda>cb. setTextComplete True) called gc))"

definition canvasTicks :: "nat \<Rightarrow> GameCanvas \<Rightarrow> GameCanvas" where
  "canvasTicks n gc = (timersFire ^^ n) gc"


section \<open>Example values\<close>

text \<open>Concrete environments and inputs, for instances of the theorems below.\<close>

definition exPlatform :: platform where
  "exPlatform = \<lparr>newContextState = Suspended, hardwareSampleRate = 48000\<rparr>"

definition exOption :: ActionOption where
  "exOption = \<lparr>label = lit ''Pull the lever'', actionPrompt = lit ''pull lever''\<rparr>"

definition exLogic :: LogicData where
  "exLogic =
     \<lparr>narrative = lit ''The plane dives. A door is open.'', visualPrompt = lit ''cockpit'',
      options = [exOption], ambience = Chaos\<rparr>"

definition exEnv :: env where
  "exEnv =
     \<lparr>browser = exPlatform,
      generateSceneLogic = (\<lambda>_ _. Inr exLogic),
      generateSceneImage = (\<lambda>_. Inr (lit ''data:image/png;base64,AAAA'')),
      randomUUID = Inr (lit ''uuid'')\<rparr>"

definition exEnvImageFails :: env where
  "exEnvImageFails =
     exEnv\<lparr>generateSceneImage := (\<lambda>_. Inl (Exn (lit ''No image data found in response'')))\<rparr>"

definition exPrompt :: jsstring where
  "exPrompt = lit ''Waking up in a falling airplane...''"

definition exPlaying :: App where
  "exPlaying = handleStartGame exEnv exPrompt initialApp"

text \<open>
  A session of four scenes with four different narratives: the model answers every
  request with the player's words as the narrative.
\<close>

definition exEnvEcho :: env where
  "exEnvEcho = exEnv\<lparr>generateSceneLogic := (\<lambda>userInput _. Inr (exLogic\<lparr>narrative := userInput\<rparr>))\<rparr>"

definition exChoice :: "string \<Rightarrow> ActionOption" where
  "exChoice s = \<lparr>label = lit s, actionPrompt = lit s\<rparr>"

definition exFourScenes :: App where
  "exFourScenes =
     run [DoStart exEnvEcho (lit ''one''), DoAdvance exEnvEcho (exChoice ''two''),
          DoAdvance exEnvEcho (exChoice ''three''), DoAdvance exEnvEcho (exChoice ''four'')]
       initialApp"


definition exAudio :: AudioManager where
  "exAudio = init exPlatform newAudioManager"

definition exCalm :: AudioManager where
  "exCalm = setAmbience exPlatform Calm exAudio"

definition exEerie :: AudioManager where
  "exEerie = setAmbience exPlatform Eerie exAudio"


section \<open>The game orchestrator\<close>

subsection \<open>Strings and arrays\<close>

lemma trim_blank: "trim s = [] \<longleftrightarrow> list_all isWhiteSpace s"
proof
  assume "trim s = []"
  then have d: "dropWhile isWhiteSpace (rev (dropWhile isWhiteSpace s)) = []"
    by (simp add: trim_def)
  show "list_all isWhiteSpace s"
  proof (rule ccontr)
    assume "\<not> list_all isWhiteSpace s"
    then obtain x where x: "x \<in> set s" "\<not> isWhiteSpace x"
      by (auto simp: list_all_iff)
    then have ne: "dropWhile isWhiteSpace s \<noteq> []"
      by auto
    then have "hd (dropWhile isWhiteSpace s) \<in> set (rev (dropWhile isWhiteSpace s))"
      by simp
    moreover have "\<not> isWhiteSpace (hd (dropWhile isWhiteSpace s))"
      using ne by (rule hd_dropWhile)
    ultimately show False
      using d by auto
  qed
next
  assume "list_all isWhiteSpace s"
  then have h: "dropWhile isWhiteSpace s = []"
    by (simp add: list_all_iff)
  show "trim s = []"
    unfolding trim_def h by simp
qed

lemma sliceFrom_last3: "sliceFrom (- 3) h = lastEntries (min 3 (length h)) h"
  by (auto simp: sliceFrom_def lastEntries_def Let_def rev_take min_def max_def nat_diff_distrib)

lemma join_joined: "join sep xs = joined sep xs"
proof (induction sep xs rule: join.induct)
  case (3 sep x y ys)
  then show ?case by (simp add: joined_def)
qed (simp_all add: joined_def)

lemma recentHistory_spec: "recentHistory h = specContext h"
  by (simp add: recentHistory_def specContext_def sliceFrom_last3 join_joined)

lemma specContext_cases:
  "specContext [] = []"
  "specContext [a] = narrative a"
  "specContext [a, b] = narrative a @ lit '' -> '' @ narrative b"
  "specContext (older @ [a, b, c]) =
     narrative a @ lit '' -> '' @ narrative b @ lit '' -> '' @ narrative c"
  by (simp_all add: specContext_def lastEntries_def joined_def)

lemma exPrompt_not_blank: "trim exPrompt \<noteq> []"
  by (simp add: trim_blank exPrompt_def lit_def isWhiteSpace_def)

subsection \<open>One run of a handler\<close>

lemma handleOptionSelect_requests:
  "currentScene (gameState w) \<noteq> None \<Longrightarrow>
     take (Suc (length (requests w))) (requests (handleOptionSelect e opt w)) =
       requests w @ [LogicRequest (actionPrompt opt) (recentHistory (history (gameState w)))]"
  by (auto simp: handleOptionSelect_def setGameState_def request_def
      handleOptionSelect_catch_def Let_def split: option.splits sum.splits)

lemma handleOptionSelect_history:
  "history (gameState (handleOptionSelect e opt w)) =
     history (gameState w) @
       (if advanceSucceeds e opt w
        then [the (currentScene (gameState (handleOptionSelect e opt w)))] else [])"
  by (auto simp: handleOptionSelect_def advanceSucceeds_def setGameState_def request_def
      handleOptionSelect_catch_def Let_def split: option.splits sum.splits)

lemma handleOptionSelect_currentScene:
  "advanceSucceeds e opt w \<Longrightarrow> currentScene (gameState (handleOptionSelect e opt w)) \<noteq> None"
  by (auto simp: handleOptionSelect_def advanceSucceeds_def setGameState_def request_def
      handleOptionSelect_catch_def Let_def split: option.splits sum.splits)

lemma handleStartGame_history:
  "startSucceeds e prompt \<Longrightarrow>
     currentScene (gameState (handleStartGame e prompt w)) \<noteq> None \<and>
     history (gameState (handleStartGame e prompt w)) =
       [the (currentScene (gameState (handleStartGame e prompt w)))]"
  by (auto simp: handleStartGame_def startSucceeds_def setGameState_def request_def
      handleStartGame_catch_def Let_def split: option.splits sum.splits)

subsection \<open>Sequences of operations\<close>

lemma run_append: "run (xs @ ys) w = run ys (run xs w)"
  by (simp add: run_def)

lemma step_history:
  "\<not> isStartOrReset act \<Longrightarrow>
     history (gameState (step act w)) = history (gameState w) @
       (case act of
          DoAdvance e opt \<Rightarrow>
            if advanceSucceeds e opt w then [the (currentScene (gameState (step act w)))] else []
        | _ \<Rightarrow> [])"
  by (cases act) (simp_all add: handleOptionSelect_history dismissError_def setInput_def setGameState_def)

lemma step_history_length:
  "\<not> isStartOrReset act \<Longrightarrow>
     length (history (gameState (step act w))) =
       length (history (gameState w)) + successfulAdvances [act] w"
  by (cases act) (simp_all add: handleOptionSelect_history dismissError_def setInput_def setGameState_def)

lemma run_history_length:
  "\<forall>a \<in> set acts. \<not> isStartOrReset a \<Longrightarrow>
     length (history (gameState (run acts w))) =
       length (history (gameState w)) + successfulAdvances acts w"
proof (induction acts arbitrary: w)
  case Nil
  then show ?case by (simp add: run_def)
next
  case (Cons a acts)
  then have "length (history (gameState (run acts (step a w)))) =
      length (history (gameState (step a w))) + successfulAdvances acts (step a w)"
    by simp
  moreover have "length (history (gameState (step a w))) =
      length (history (gameState w)) + successfulAdvances [a] w"
    using Cons.prems by (simp add: step_history_length)
  moreover have "successfulAdvances (a # acts) w =
      successfulAdvances [a] w + successfulAdvances acts (step a w)"
    by (cases a) simp_all
  ultimately show ?case by (simp add: run_def)
qed

lemma run_history_prefix:
  "\<forall>a \<in> set acts. \<not> isStartOrReset a \<Longrightarrow>
     prefix (history (gameState w)) (history (gameState (run acts w)))"
proof (induction acts arbitrary: w)
  case Nil
  then show ?case by (simp add: run_def)
next
  case (Cons a acts)
  have "prefix (history (gameState w)) (history (gameState (step a w)))"
    using Cons.prems by (simp add: step_history)
  moreover have "prefix (history (gameState (step a w))) (history (gameState (run acts (step a w))))"
    using Cons by simp
  ultimately show ?case by (auto simp: run_def intro: prefix_order.trans)
qed

lemma run_take_prefix:
  assumes "\<forall>a \<in> set acts. \<not> isStartOrReset a"
  shows "prefix (history (gameState (run (take k acts) w))) (history (gameState (run acts w)))"
proof -
  have "run acts w = run (drop k acts) (run (take k acts) w)"
    by (metis append_take_drop_id run_append)
  moreover have "\<forall>a \<in> set (drop k acts). \<not> isStartOrReset a"
    using assms by (meson in_set_dropD)
  ultimately show ?thesis
    by (simp add: run_history_prefix)
qed

lemma exEnv_startSucceeds: "startSucceeds exEnv exPrompt"
  by (simp add: startSucceeds_def exPrompt_not_blank exEnv_def)

lemma exPlaying_gameState:
  "gameState exPlaying =
     \<lparr>isPlaying = True,
      currentScene = Some (newScene (lit ''uuid'') exLogic (lit ''data:image/png;base64,AAAA'')),
      history = [newScene (lit ''uuid'') exLogic (lit ''data:image/png;base64,AAAA'')],
      loading = False, loadingMessage = lit ''Materializing World...'', error = None\<rparr>"
  by (simp add: exPlaying_def handleStartGame_def exPrompt_not_blank exEnv_def setGameState_def
      request_def initialApp_def initialGameState_def Let_def)

lemma one_not_blank: "trim (lit ''one'') \<noteq> []"
  by (simp add: trim_blank lit_def isWhiteSpace_def)

lemma exFourScenes_gameState:
  "currentScene (gameState exFourScenes) \<noteq> None \<and>
   map narrative (history (gameState exFourScenes)) =
     [lit ''one'', lit ''two'', lit ''three'', lit ''four''] \<and>
   length (requests exFourScenes) = 8"
  by (simp add: exFourScenes_def run_def handleStartGame_def handleOptionSelect_def one_not_blank
      exEnvEcho_def exEnv_def exChoice_def setGameState_def request_def initialApp_def
      initialGameState_def Let_def exLogic_def newScene_def)


subsection \<open>The claims about the orchestrator\<close>

text \<open>
  Claim C1.  A successful Start replaces the history by the one-element sequence that
  holds the new scene, whatever the history was.  In every sequence of operations that
  follows it and has no Start and no Reset, the history only grows at its end: the
  history after the first \<open>k\<close> operations is a prefix of the final one, its final length
  is one plus the number of successful Advance calls, a successful Advance appends
  exactly the new scene, and an Advance that is not successful leaves the history as it
  was.
\<close>

theorem history_append_only:
  assumes "startSucceeds e prompt" and "\<forall>a \<in> set acts. \<not> isStartOrReset a"
  shows "let w1 = handleStartGame e prompt w; w2 = run acts w1 in
           (\<exists>scene. currentScene (gameState w1) = Some scene \<and> history (gameState w1) = [scene]) \<and>
           length (history (gameState w2)) = 1 + successfulAdvances acts w1 \<and>
           (\<forall>k \<le> length acts.
              prefix (history (gameState (run (take k acts) w1))) (history (gameState w2))) \<and>
           (\<forall>e' opt w'. advanceSucceeds e' opt w' \<longrightarrow>
              (\<exists>scene. currentScene (gameState (handleOptionSelect e' opt w')) = Some scene \<and>
                 history (gameState (handleOptionSelect e' opt w')) = history (gameState w') @ [scene])) \<and>
           (\<forall>e' opt w'. \<not> advanceSucceeds e' opt w' \<longrightarrow>
              history (gameState (handleOptionSelect e' opt w')) = history (gameState w'))"
proof -
  define w1 where "w1 = handleStartGame e prompt w"
  have start: "currentScene (gameState w1) \<noteq> None"
      "history (gameState w1) = [the (currentScene (gameState w1))]"
    using handleStartGame_history [OF assms(1), of w] by (simp_all add: w1_def)
  then have a: "\<exists>scene. currentScene (gameState w1) = Some scene \<and> history (gameState w1) = [scene]"
    by auto
  have "length (history (gameState w1)) = 1"
    using start(2) by (metis length_Cons list.size(3) One_nat_def)
  then have b: "length (history (gameState (run acts w1))) = 1 + successfulAdvances acts w1"
    using run_history_length [OF assms(2), of w1] by simp
  have c: "\<forall>k \<le> length acts.
      prefix (history (gameState (run (take k acts) w1))) (history (gameState (run acts w1)))"
    using run_take_prefix [OF assms(2)] by simp
  have d: "\<forall>e' opt w'. advanceSucceeds e' opt w' \<longrightarrow>
      (\<exists>scene. currentScene (gameState (handleOptionSelect e' opt w')) = Some scene \<and>
         history (gameState (handleOptionSelect e' opt w')) = history (gameState w') @ [scene])"
    using handleOptionSelect_history handleOptionSelect_currentScene by fastforce
  have e: "\<forall>e' opt w'. \<not> advanceSucceeds e' opt w' \<longrightarrow>
      history (gameState (handleOptionSelect e' opt w')) = history (gameState w')"
    by (simp add: handleOptionSelect_history)
  show ?thesis
    unfolding Let_def w1_def [symmetric] using a b c d e by blast
qed

theorem history_append_only_witness:
  "startSucceeds exEnv exPrompt \<and>
   list_all (\<lambda>a. \<not> isStartOrReset a)
     [DoAdvance exEnv exOption, DoAdvance exEnvImageFails exOption, DoDismissError,
      DoAdvance exEnv exOption] \<and>
   length (history (gameState (run
     [DoAdvance exEnv exOption, DoAdvance exEnvImageFails exOption, DoDismissError,
      DoAdvance exEnv exOption] (handleStartGame exEnv exPrompt initialApp)))) = 3"
proof -
  let ?acts = "[DoAdvance exEnv exOption, DoAdvance exEnvImageFails exOption, DoDismissError,
      DoAdvance exEnv exOption]"
  have h: "\<forall>a \<in> set ?acts. \<not> isStartOrReset a" by simp
  have cs: "\<And>e opt w. currentScene (gameState w) \<noteq> None \<Longrightarrow>
      currentScene (gameState (handleOptionSelect e opt w)) \<noteq> None"
    by (auto simp: handleOptionSelect_def setGameState_def request_def
      handleOptionSelect_catch_def Let_def split: option.splits sum.splits)
  have c0: "currentScene (gameState exPlaying) \<noteq> None"
    by (simp add: exPlaying_gameState)
  have "successfulAdvances ?acts exPlaying = 2"
    using c0 by (simp add: advanceSucceeds_def cs exEnv_def exEnvImageFails_def dismissError_def setGameState_def)
  then show ?thesis
    using history_append_only [OF exEnv_startSucceeds h, of initialApp]
    by (simp add: Let_def exPlaying_def exEnv_startSucceeds)
qed


text \<open>
  Claim C2.  When the narrative request or the image request of an Advance throws, the
  resulting state has the history and the current scene of the state before, loading
  is false and the error is the message of Advance: a narrative whose image failed is
  not appended.
\<close>

theorem advance_failure_keeps_history:
  assumes "advanceRequestThrows e opt w"
  shows "history (gameState (handleOptionSelect e opt w)) = history (gameState w) \<and>
         currentScene (gameState (handleOptionSelect e opt w)) = currentScene (gameState w) \<and>
         loading (gameState (handleOptionSelect e opt w)) = False \<and>
         error (gameState (handleOptionSelect e opt w)) = Some advanceError"
  using assms
  by (auto simp: handleOptionSelect_def advanceRequestThrows_def setGameState_def request_def
      handleOptionSelect_catch_def Let_def split: option.splits sum.splits)

theorem advance_failure_keeps_history_witness:
  "advanceRequestThrows exEnvImageFails exOption exPlaying \<and>
   history (gameState (handleOptionSelect exEnvImageFails exOption exPlaying)) =
     [newScene (lit ''uuid'') exLogic (lit ''data:image/png;base64,AAAA'')] \<and>
   currentScene (gameState (handleOptionSelect exEnvImageFails exOption exPlaying)) =
     Some (newScene (lit ''uuid'') exLogic (lit ''data:image/png;base64,AAAA'')) \<and>
   loading (gameState (handleOptionSelect exEnvImageFails exOption exPlaying)) = False \<and>
   error (gameState (handleOptionSelect exEnvImageFails exOption exPlaying)) =
     Some (lit ''Lost connection to the dream stream. Please retry.'')"
proof -
  have h: "advanceRequestThrows exEnvImageFails exOption exPlaying"
    by (simp add: advanceRequestThrows_def exPlaying_gameState exEnvImageFails_def exEnv_def)
  show ?thesis
    using h advance_failure_keeps_history [OF h]
    by (simp add: exPlaying_gameState advanceError_def)
qed


text \<open>
  Claim C4.  Reset yields the initial idle state from every state: no current scene, an
  empty history, loading false, an empty loading message, no error, not playing.
\<close>

theorem reset_is_initial:
  "gameState (resetGame e w) = initialGameState \<and>
   currentScene (gameState (resetGame e w)) = None \<and>
   history (gameState (resetGame e w)) = [] \<and>
   loading (gameState (resetGame e w)) = False \<and>
   loadingMessage (gameState (resetGame e w)) = [] \<and>
   error (gameState (resetGame e w)) = None \<and>
   isPlaying (gameState (resetGame e w)) = False \<and>
   gameState initialApp = initialGameState"
  by (simp add: resetGame_def setGameState_def setInput_def initialGameState_def initialApp_def Let_def)

theorem reset_is_initial_witness:
  "gameState (resetGame exEnv exPlaying) = gameState initialApp \<and>
   gameState exPlaying \<noteq> gameState initialApp"
  using reset_is_initial [of exEnv exPlaying]
  by (simp add: exPlaying_gameState initialGameState_def)


text \<open>
  Claim C7.  The first request of an Advance that passes its guard is the narrative
  request, and its context argument is the narrative texts of the last
  \<open>min 3 (length h)\<close> entries of the history \<open>h\<close>, in order, joined with the
  separator \<open>" -> "\<close>.  Written out: with one entry it is that narrative, with two
  entries the two narratives with the separator between them, and with three or more
  entries the narratives of the last three with the separator between them, whatever
  the entries before them are.
\<close>

theorem advance_context_last_three:
  assumes "currentScene (gameState w) \<noteq> None"
  shows "take (Suc (length (requests w))) (requests (handleOptionSelect e opt w)) =
           requests w @ [LogicRequest (actionPrompt opt) (specContext (history (gameState w)))] \<and>
         (\<forall>a. history (gameState w) = [a] \<longrightarrow>
            specContext (history (gameState w)) = narrative a) \<and>
         (\<forall>a b. history (gameState w) = [a, b] \<longrightarrow>
            specContext (history (gameState w)) = narrative a @ lit '' -> '' @ narrative b) \<and>
         (\<forall>older a b c. history (gameState w) = older @ [a, b, c] \<longrightarrow>
            specContext (history (gameState w)) =
              narrative a @ lit '' -> '' @ narrative b @ lit '' -> '' @ narrative c)"
  using handleOptionSelect_requests [OF assms, of e opt]
  by (simp add: recentHistory_spec specContext_cases)

theorem advance_context_last_three_witness:
  "currentScene (gameState exFourScenes) \<noteq> None \<and>
   map narrative (history (gameState exFourScenes)) =
     [lit ''one'', lit ''two'', lit ''three'', lit ''four''] \<and>
   requests (handleOptionSelect exEnvEcho (exChoice ''five'') exFourScenes) ! 8 =
     LogicRequest (lit ''five'') (lit ''two -> three -> four'')"
proof -
  have h: "currentScene (gameState exFourScenes) \<noteq> None"
    using exFourScenes_gameState by simp
  have n: "map narrative (history (gameState exFourScenes)) =
     [lit ''one'', lit ''two'', lit ''three'', lit ''four'']"
    using exFourScenes_gameState by simp
  then obtain s1 s2 s3 s4 where s: "history (gameState exFourScenes) = [s1] @ [s2, s3, s4]"
    "narrative s2 = lit ''two''" "narrative s3 = lit ''three''" "narrative s4 = lit ''four''"
    by (auto simp: map_eq_Cons_conv)
  note th = advance_context_last_three [OF h, of exEnvEcho "exChoice ''five''"]
  have c: "specContext (history (gameState exFourScenes)) = lit ''two -> three -> four''"
    using th s by (simp add: lit_def)
  have l: "length (requests exFourScenes) = 8"
    using exFourScenes_gameState by simp
  have "take 9 (requests (handleOptionSelect exEnvEcho (exChoice ''five'') exFourScenes)) ! 8 =
      LogicRequest (lit ''five'') (lit ''two -> three -> four'')"
    using th c l by (simp add: exChoice_def nth_append)
  then show ?thesis
    using h n by simp
qed


text \<open>
  Claim C9.  Start with a prompt that is empty or holds only white space returns at its
  guard: the game state, the audio manager and the list of requests are those of the
  state before.
\<close>

theorem start_blank_is_noop:
  assumes "list_all isWhiteSpace prompt"
  shows "handleStartGame e prompt w = w \<and>
         gameState (handleStartGame e prompt w) = gameState w \<and>
         audio (handleStartGame e prompt w) = audio w \<and>
         requests (handleStartGame e prompt w) = requests w"
  using assms by (simp add: handleStartGame_def trim_blank)

theorem start_blank_is_noop_witness:
  "list_all isWhiteSpace (lit '' '') \<and> list_all isWhiteSpace [0x3000, 0x000A] \<and>
   handleStartGame exEnv (lit '' '') initialApp = initialApp \<and>
   handleStartGame exEnv [0x3000, 0x000A] initialApp = initialApp \<and>
   handleStartGame exEnv exPrompt initialApp \<noteq> initialApp"
proof -
  have h1: "list_all isWhiteSpace (lit '' '')"
    by (simp add: lit_def isWhiteSpace_def)
  have h2: "list_all isWhiteSpace [0x3000, 0x000A]"
    by (simp add: isWhiteSpace_def)
  have "gameState exPlaying \<noteq> gameState initialApp"
    by (simp add: exPlaying_gameState initialApp_def initialGameState_def)
  then have "handleStartGame exEnv exPrompt initialApp \<noteq> initialApp"
    by (auto simp: exPlaying_def)
  then show ?thesis
    using h1 h2 start_blank_is_noop [OF h1, of exEnv initialApp]
      start_blank_is_noop [OF h2, of exEnv initialApp]
    by simp
qed


text \<open>
  Claim C10.  Advance in a state without a current scene returns at its guard, for every
  option: the state is the one before, loading is not set and no request is sent.
\<close>

theorem advance_without_scene_is_noop:
  assumes "currentScene (gameState w) = None"
  shows "handleOptionSelect e opt w = w \<and>
         gameState (handleOptionSelect e opt w) = gameState w \<and>
         loading (gameState (handleOptionSelect e opt w)) = loading (gameState w) \<and>
         requests (handleOptionSelect e opt w) = requests w"
  using assms by (simp add: handleOptionSelect_def)

theorem advance_without_scene_is_noop_witness:
  "currentScene (gameState initialApp) = None \<and>
   handleOptionSelect exEnv exOption initialApp = initialApp \<and>
   requests (handleOptionSelect exEnv exOption initialApp) = []"
proof -
  have h: "currentScene (gameState initialApp) = None"
    by (simp add: initialApp_def initialGameState_def)
  show ?thesis
    using h advance_without_scene_is_noop [OF h, of exEnv exOption]
    by (simp add: initialApp_def)
qed


section \<open>The audio manager\<close>

subsection \<open>Reachable states are well-formed\<close>

lemma knownCalls_append [simp]:
  "knownCalls k (xs @ ys) \<longleftrightarrow> knownCalls k xs \<and> knownCalls k ys"
  by (simp add: knownCalls_def)

lemma knownCalls_mono: "knownCalls k cs \<Longrightarrow> k \<le> k' \<Longrightarrow> knownCalls k' cs"
  by (fastforce simp: knownCalls_def list_all_iff)

lemma knownCalls_Suc [simp]: "knownCalls k cs \<Longrightarrow> knownCalls (Suc k) cs"
  by (erule knownCalls_mono) simp

lemma knownCalls_Nil [simp]: "knownCalls k []"
  by (simp add: knownCalls_def)

lemma knownCalls_Cons [simp]:
  "knownCalls k (e # cs) \<longleftrightarrow> list_all (\<lambda>n. n < k) (callIds e) \<and> knownCalls k cs"
  by (simp add: knownCalls_def)

lemma wf_init: "wfAudio a \<Longrightarrow> wfAudio (init p a)"
  by (auto simp: wfAudio_def init_def wfContext_def known_def newAudioContext_def createGain_def
      createNode_def emit_def Let_def split: option.splits)

lemma wf_resume: "wfAudio a \<Longrightarrow> wfAudio (resume a)"
  by (auto simp: wfAudio_def resume_def wfContext_def known_def emit_def Let_def
      split: option.splits)

lemma wf_stop: "wfAudio a \<Longrightarrow> wfAudio (stop a)"
  by (auto simp: wfAudio_def stop_def wfContext_def known_def emit_def Let_def
      split: option.splits)

lemma wf_tryStop: "wfAudio a \<Longrightarrow> known (the (ctx a)) (Some n) \<Longrightarrow> wfAudio (tryStop n a)"
  by (auto simp: wfAudio_def tryStop_def wfContext_def known_def emit_def Let_def
      split: option.splits)

lemma wf_stopAmbience: "wfAudio a \<Longrightarrow> wfAudio (stopAmbience a)"
  by (auto simp: wfAudio_def stopAmbience_def tryStop_def wfContext_def known_def emit_def Let_def
      split: option.splits)

lemma wf_stop_timeout: "wfAudio a \<Longrightarrow> wfAudio (stop_timeout a)"
  by (auto simp: wfAudio_def stop_timeout_def stopAmbience_def tryStop_def wfContext_def known_def emit_def Let_def
      split: option.splits)

lemma wf_createNoiseBuffer: "wfAudio a \<Longrightarrow> wfAudio (snd (createNoiseBuffer a))"
  by (auto simp: wfAudio_def createNoiseBuffer_def createBuffer_def createNode_def wfContext_def
      known_def emit_def Let_def split: option.splits)

lemma wf_playClick: "wfAudio a \<Longrightarrow> wfAudio (playClick p a)"
proof -
  assume "wfAudio a"
  then have w: "wfAudio (init p a)" by (rule wf_init)
  show ?thesis
    using w
    by (auto simp: playClick_def wfAudio_def wfContext_def known_def createGain_def
      createOscillator_def createNode_def emit_def Let_def split: option.splits)
qed

lemma wf_playTransition: "wfAudio a \<Longrightarrow> wfAudio (playTransition p a)"
proof -
  assume "wfAudio a"
  then have w: "wfAudio (init p a)" by (rule wf_init)
  show ?thesis
    using w
    by (auto simp: playTransition_def createNoiseBuffer_def createBuffer_def wfAudio_def
      wfContext_def known_def createGain_def createBufferSource_def createBiquadFilter_def
      createNode_def emit_def Let_def split: option.splits)
qed

lemma wf_buildMechanical:
  "wfAudio a \<Longrightarrow> ctx a = Some c \<Longrightarrow> ag < nextId c \<Longrightarrow> wfAudio (buildMechanical ag c a)"
  by (auto simp: buildMechanical_def wfAudio_def wfContext_def known_def createGain_def
      createOscillator_def createBiquadFilter_def createNode_def emit_def Let_def
      split: option.splits)

lemma wf_buildEerie:
  "wfAudio a \<Longrightarrow> ctx a = Some c \<Longrightarrow> ag < nextId c \<Longrightarrow> wfAudio (buildEerie ag c a)"
  by (auto simp: buildEerie_def wfAudio_def wfContext_def known_def createGain_def
      createOscillator_def createNode_def emit_def Let_def split: option.splits)

lemma wf_buildNoise:
  "wfAudio a \<Longrightarrow> ctx a = Some c \<Longrightarrow> ag < nextId c \<Longrightarrow> wfAudio (buildNoise ty ag a)"
  by (cases ty)
    (auto simp: buildNoise_def createNoiseBuffer_def createBuffer_def wfAudio_def wfContext_def
      known_def createGain_def createOscillator_def createBufferSource_def
      createBiquadFilter_def createNode_def emit_def Let_def split: option.splits)

lemma wf_type: "wfAudio a \<Longrightarrow> ctx a \<noteq> None \<Longrightarrow> wfAudio (a\<lparr>currentAmbienceType := x\<rparr>)"
  by (auto simp: wfAudio_def split: option.splits)

lemma wf_emit:
  "wfAudio a \<Longrightarrow> ctx a = Some c \<Longrightarrow> knownCalls (nextId c) cs \<Longrightarrow> wfAudio (a\<lparr>ctx := Some (emit cs c)\<rparr>)"
  by (auto simp: wfAudio_def wfContext_def known_def emit_def split: option.splits)

lemma stopAmbience_fields:
  "ambienceGain (stopAmbience a) = ambienceGain a \<and> masterGain (stopAmbience a) = masterGain a \<and>
   (ctx (stopAmbience a) = None \<longleftrightarrow> ctx a = None) \<and>
   (\<forall>c. ctx a = Some c \<longrightarrow> nextId (the (ctx (stopAmbience a))) = nextId c \<and>
        currentTime (the (ctx (stopAmbience a))) = currentTime c \<and>
        state (the (ctx (stopAmbience a))) = state c)"
  by (auto simp: stopAmbience_def tryStop_def emit_def Let_def split: option.splits)

lemma wf_setAmbience: "wfAudio a \<Longrightarrow> wfAudio (setAmbience p ty a)"
proof -
  assume "wfAudio a"
  then have w: "wfAudio (resume (init p a))" by (simp add: wf_init wf_resume)
  define a0 where "a0 = resume (init p a)"
  show ?thesis
  proof (cases "ctx a0")
    case None
    then show ?thesis using w by (simp add: setAmbience_def a0_def [symmetric])
  next
    case (Some c0)
    then obtain ag where ag: "ambienceGain a0 = Some ag" "ag < nextId c0"
      using w by (auto simp: wfAudio_def a0_def known_def)
    show ?thesis
    proof (cases "currentAmbienceType a0 = Some ty")
      case True
      then show ?thesis using w Some ag by (simp add: setAmbience_def a0_def [symmetric])
    next
      case False
      define a1 where "a1 = stopAmbience (a0\<lparr>currentAmbienceType := Some ty\<rparr>)"
      have w1: "wfAudio a1"
        using w Some by (simp add: a1_def wf_stopAmbience wf_type a0_def)
      obtain c1 where c1: "ctx a1 = Some c1" "nextId c1 = nextId c0"
        using stopAmbience_fields [of "a0\<lparr>currentAmbienceType := Some ty\<rparr>"] Some
        by (auto simp: a1_def)
      define c2 where "c2 = emit [CancelScheduledValues ag P_gain (currentTime c1),
              SetValueAtTime ag P_gain 0 (currentTime c1),
              LinearRampToValueAtTime ag P_gain (3/10) (currentTime c1 + 2)] c1"
      define a2 where "a2 = a1\<lparr>ctx := Some c2\<rparr>"
      have w2: "wfAudio a2"
        unfolding a2_def c2_def using w1 c1 ag by (intro wf_emit) simp_all
      have c2: "ctx a2 = Some c2" "ag < nextId c2"
        using ag c1 by (simp_all add: a2_def c2_def emit_def)
      have "setAmbience p ty a =
          (case ty of Mechanical \<Rightarrow> buildMechanical ag c2 a2
                    | Eerie \<Rightarrow> buildEerie ag c2 a2
                    | _ \<Rightarrow> buildNoise ty ag a2)"
        using Some ag False c1 [unfolded a1_def]
        by (cases ty)
          (simp_all add: setAmbience_def a0_def [symmetric] Let_def c2_def a2_def a1_def)
      then show ?thesis
        using w2 c2 by (cases ty) (simp_all add: wf_buildMechanical wf_buildEerie wf_buildNoise)
    qed
  qed
qed

lemma wf_advanceTime: "wfAudio a \<Longrightarrow> 0 \<le> dt \<Longrightarrow> wfAudio (advanceTime dt a)"
  by (auto simp: wfAudio_def advanceTime_def wfContext_def known_def split: option.splits)

lemma wf_stateChange: "wfAudio a \<Longrightarrow> wfAudio (stateChange s a)"
  by (auto simp: wfAudio_def stateChange_def wfContext_def known_def split: option.splits)

lemma reachable_wf: "reachable p a \<Longrightarrow> wfAudio a"
proof (induction rule: reachable.induct)
  case r_new
  then show ?case by (simp add: wfAudio_def newAudioManager_def)
qed (simp_all add: wf_init wf_stop wf_stop_timeout wf_resume wf_createNoiseBuffer wf_playClick
    wf_playTransition wf_stopAmbience wf_setAmbience wf_advanceTime wf_stateChange)

subsection \<open>What the methods add to the calls\<close>

lemma started_append [simp]: "started (xs @ ys) n \<longleftrightarrow> started xs n \<or> started ys n"
  by (auto simp: started_def)

lemma stoppedBy_append [simp]: "stoppedBy (xs @ ys) t n \<longleftrightarrow> stoppedBy xs t n \<or> stoppedBy ys t n"
  by (simp add: stoppedBy_def)

lemma started_resumeCalls [simp]: "\<not> started (resumeCalls mg c) n"
  by (simp add: resumeCalls_def started_def)

lemma started_rampCalls [simp]: "\<not> started (rampCalls ag t) n"
  by (simp add: rampCalls_def started_def)

lemma started_teardownCalls [simp]: "\<not> started (teardownCalls a) n"
  by (simp add: teardownCalls_def started_def split: option.splits)

lemma stoppedBy_resumeCalls [simp]: "\<not> stoppedBy (resumeCalls mg c) t n"
  by (simp add: resumeCalls_def stoppedBy_def)

lemma stoppedBy_rampCalls [simp]: "\<not> stoppedBy (rampCalls ag t') t n"
  by (simp add: rampCalls_def stoppedBy_def)

lemma fresh_not_started: "knownCalls k cs \<Longrightarrow> k \<le> n \<Longrightarrow> \<not> started cs n"
  by (fastforce simp: knownCalls_def started_def list_all_iff)

lemma fresh_not_stopped: "knownCalls k cs \<Longrightarrow> k \<le> n \<Longrightarrow> \<not> stoppedBy cs t n"
proof (induction cs)
  case Nil
  then show ?case by (simp add: stoppedBy_def)
next
  case (Cons e cs)
  then show ?case by (cases e) (simp_all add: stoppedBy_def)
qed

lemma emit_Nil [simp]: "emit [] c = c"
  by (simp add: emit_def)

lemma emit_emit [simp]: "emit ys (emit xs c) = emit (xs @ ys) c"
  by (simp add: emit_def)

lemma emit_fields [simp]:
  "state (emit cs c) = state c" "currentTime (emit cs c) = currentTime c"
  "sampleRate (emit cs c) = sampleRate c" "nextId (emit cs c) = nextId c"
  "calls (emit cs c) = calls c @ cs"
  by (simp_all add: emit_def)

lemma resume_init:
  assumes "ctx a = Some c" and "masterGain a = Some mg"
  shows "resume (init p a) = a\<lparr>ctx := Some (emit (resumeCalls mg c) c)\<rparr>"
  using assms by (simp add: init_def resume_def resumeCalls_def Let_def emit_def)

lemma stopAmbience_eq:
  assumes "ctx a = Some c"
  shows "stopAmbience a =
           a\<lparr>ctx := Some (emit (teardownCalls a) c), ambienceNode := None, lfo := None\<rparr>"
  using assms
  by (cases "ambienceNode a"; cases "lfo a")
    (simp_all add: stopAmbience_def tryStop_def teardownCalls_def Let_def emit_def started_def)

lemma teardownCalls_cong:
  "ctx a' = Some c' \<Longrightarrow> ctx a = Some c \<Longrightarrow> ambienceNode a' = ambienceNode a \<Longrightarrow> lfo a' = lfo a \<Longrightarrow>
   (\<And>n. started (calls c') n = started (calls c) n) \<Longrightarrow> teardownCalls a' = teardownCalls a"
  by (simp add: teardownCalls_def split: option.splits)

lemma buildEerie_eq:
  "buildEerie ag c a =
     a\<lparr>ambienceNode := Some (nextId c),
       ctx := Some (c\<lparr>nextId := nextId c + 3,
                      calls := calls c @ eerieCalls (nextId c) ag (currentTime c)\<rparr>)\<rparr>"
  by (simp add: buildEerie_def eerieCalls_def createOscillator_def createGain_def createNode_def
      emit_def Let_def)

lemma buildNoise_eq:
  assumes "ctx a = Some c" and "ty = Calm \<or> ty = Chaos"
  shows "buildNoise ty ag a =
     a\<lparr>ctx := Some (c\<lparr>nextId := nextId c + 3,
                      calls := calls c @ noiseCalls ty (nextId c) ag (sampleRate c)\<rparr>),
       ambienceNode := Some (nextId c + 1)\<rparr>"
  using assms
  by (auto simp: buildNoise_def noiseCalls_def createNoiseBuffer_def createBuffer_def
      createBufferSource_def createBiquadFilter_def createNode_def emit_def Let_def)

lemma init_ctx: "ctx (init p a) \<noteq> None"
  by (auto simp: init_def Let_def createGain_def createNode_def split: option.splits prod.splits)

lemma resume_ctx: "ctx (resume a) = None \<longleftrightarrow> ctx a = None"
  by (auto simp: resume_def Let_def split: option.splits)

lemma resume_init_fields:
  "ambienceNode (resume (init p a)) = ambienceNode a \<and> lfo (resume (init p a)) = lfo a \<and>
   currentAmbienceType (resume (init p a)) = currentAmbienceType a \<and>
   ctx (resume (init p a)) \<noteq> None"
  by (auto simp: resume_def init_def Let_def createGain_def createNode_def
      split: option.splits prod.splits)

lemma setAmbience_via:
  assumes "ctx (resume (init p a)) = Some c0" and "ambienceGain (resume (init p a)) = Some ag"
    and "currentAmbienceType a \<noteq> Some ty"
  shows "setAmbience p ty a =
    (let a0 = resume (init p a);
         c' = emit (teardownCalls a0 @ rampCalls ag (currentTime c0)) c0;
         a' = a0\<lparr>currentAmbienceType := Some ty, ambienceNode := None, lfo := None,
                 ctx := Some c'\<rparr>
     in case ty of Mechanical \<Rightarrow> buildMechanical ag c' a'
                 | Eerie \<Rightarrow> buildEerie ag c' a'
                 | _ \<Rightarrow> buildNoise ty ag a')"
proof -
  define a0 where "a0 = resume (init p a)"
  have f: "ctx a0 = Some c0" "ambienceGain a0 = Some ag" "currentAmbienceType a0 \<noteq> Some ty"
    using assms resume_init_fields [of p a] by (simp_all add: a0_def)
  have td: "teardownCalls (a0\<lparr>currentAmbienceType := Some ty'\<rparr>) = teardownCalls a0" for ty'
    by (rule teardownCalls_cong [where c' = c0 and c = c0]) (simp_all add: f)
  have s: "stopAmbience (a0\<lparr>currentAmbienceType := Some ty'\<rparr>) =
      a0\<lparr>currentAmbienceType := Some ty', ctx := Some (emit (teardownCalls a0) c0),
         ambienceNode := None, lfo := None\<rparr>" for ty'
  proof -
    have "ctx (a0\<lparr>currentAmbienceType := Some ty'\<rparr>) = Some c0"
      by (simp add: f)
    from stopAmbience_eq [OF this] show ?thesis
      by (simp add: td)
  qed
  show ?thesis
    unfolding setAmbience_def a0_def [symmetric] using f
    by (cases ty) (simp_all add: s Let_def rampCalls_def)
qed

lemma wfAudio_ctxD:
  assumes "wfAudio a" and "ctx a = Some c"
  shows "\<exists>mg ag. masterGain a = Some mg \<and> ambienceGain a = Some ag \<and> mg < nextId c \<and>
           ag < nextId c" and "knownCalls (nextId c) (calls c)" and "0 \<le> currentTime c"
    and "known c (ambienceNode a)" and "known c (lfo a)"
  using assms by (auto simp: wfAudio_def wfContext_def known_def)

lemma wfAudio_typeD: "wfAudio a \<Longrightarrow> currentAmbienceType a = Some m \<Longrightarrow> ctx a \<noteq> None"
  by (auto simp: wfAudio_def split: option.splits)

lemma reachable_resume_init: "reachable p a \<Longrightarrow> reachable p (resume (init p a))"
  by (intro r_resume r_init)

lemma filter_isStop_resumeCalls [simp]: "filter isStop (resumeCalls mg c) = []"
  by (simp add: resumeCalls_def)

lemma filter_isStop_rampCalls [simp]: "filter isStop (rampCalls ag t) = []"
  by (simp add: rampCalls_def)

lemma filter_isStop_teardownCalls [simp]: "filter isStop (teardownCalls a) = teardownCalls a"
  by (simp add: teardownCalls_def split: option.splits)

lemma filter_isCreate_resumeCalls [simp]: "filter isCreate (resumeCalls mg c) = []"
  by (simp add: resumeCalls_def)

lemma setAmbience_same:
  assumes "wfAudio a" and "currentAmbienceType a = Some m"
  shows "\<exists>c mg. ctx a = Some c \<and> masterGain a = Some mg \<and>
           setAmbience p m a = a\<lparr>ctx := Some (emit (resumeCalls mg c) c)\<rparr>"
proof -
  obtain c where c: "ctx a = Some c"
    using wfAudio_typeD [OF assms] by auto
  obtain mg ag where g: "masterGain a = Some mg" "ambienceGain a = Some ag"
    using wfAudio_ctxD(1) [OF assms(1) c] by auto
  have "resume (init p a) = a\<lparr>ctx := Some (emit (resumeCalls mg c) c)\<rparr>"
    using c g(1) by (rule resume_init)
  then have "setAmbience p m a = a\<lparr>ctx := Some (emit (resumeCalls mg c) c)\<rparr>"
    using assms(2) g by (simp add: setAmbience_def)
  then show ?thesis using c g by blast
qed

lemma started_eerieCalls [simp]: "started (eerieCalls n ag t) k \<longleftrightarrow> k = n \<or> k = n + 1"
  by (auto simp: eerieCalls_def started_def)

lemma started_noiseCalls [simp]: "started (noiseCalls ty n ag rate) k \<longleftrightarrow> k = n + 1"
  by (auto simp: noiseCalls_def started_def)

lemma stoppedBy_eerieCalls [simp]:
  "stoppedBy (eerieCalls n ag t) t' k \<longleftrightarrow> k = n + 1 \<and> t + 600 \<le> t'"
  by (auto simp: eerieCalls_def stoppedBy_def)

lemma stoppedBy_noiseCalls [simp]: "\<not> stoppedBy (noiseCalls ty n ag rate) t k"
  by (simp add: noiseCalls_def stoppedBy_def)

lemma stoppedBy_teardownCalls:
  "ctx a = Some c \<Longrightarrow> 0 \<le> t \<Longrightarrow>
     stoppedBy (teardownCalls a) t k \<longleftrightarrow>
       (ambienceNode a = Some k \<or> lfo a = Some k) \<and> started (calls c) k"
  by (auto simp: teardownCalls_def stoppedBy_def split: option.splits)

lemma filter_isStop_eerieCalls [simp]:
  "filter isStop (eerieCalls n ag t) = [Stop (n + 1) (t + 600)]"
  by (simp add: eerieCalls_def)

lemma filter_isStop_noiseCalls [simp]: "filter isStop (noiseCalls ty n ag rate) = []"
  by (simp add: noiseCalls_def)

lemma length_eerieCalls [simp]: "length (eerieCalls n ag t) = 14"
  by (simp add: eerieCalls_def)

text \<open>The state after a switch to eerie, and after a switch to calm or chaos, field by field.\<close>

lemma setAmbience_eerie:
  assumes "ctx (resume (init p a)) = Some c0" and "ambienceGain (resume (init p a)) = Some ag"
    and "currentAmbienceType a \<noteq> Some Eerie"
  shows "\<exists>c1. ctx (setAmbience p Eerie a) = Some c1 \<and>
           calls c1 = calls c0 @ teardownCalls (resume (init p a)) @
                        rampCalls ag (currentTime c0) @
                        eerieCalls (nextId c0) ag (currentTime c0) \<and>
           nextId c1 = nextId c0 + 3 \<and> currentTime c1 = currentTime c0 \<and>
           state c1 = state c0 \<and> sampleRate c1 = sampleRate c0"
    and "ambienceNode (setAmbience p Eerie a) = Some (nextId c0)"
    and "lfo (setAmbience p Eerie a) = None"
    and "masterGain (setAmbience p Eerie a) = masterGain (resume (init p a))"
    and "ambienceGain (setAmbience p Eerie a) = Some ag"
    and "currentAmbienceType (setAmbience p Eerie a) = Some Eerie"
    and "timeouts (setAmbience p Eerie a) = timeouts (resume (init p a))"
  using assms
  by (simp_all add: setAmbience_via [OF assms] buildEerie_eq Let_def)

lemma setAmbience_noise:
  assumes "ctx (resume (init p a)) = Some c0" and "ambienceGain (resume (init p a)) = Some ag"
    and "currentAmbienceType a \<noteq> Some ty" and "ty = Calm \<or> ty = Chaos"
  shows "\<exists>c1. ctx (setAmbience p ty a) = Some c1 \<and>
           calls c1 = calls c0 @ teardownCalls (resume (init p a)) @
                        rampCalls ag (currentTime c0) @
                        noiseCalls ty (nextId c0) ag (sampleRate c0) \<and>
           nextId c1 = nextId c0 + 3 \<and> currentTime c1 = currentTime c0 \<and>
           state c1 = state c0 \<and> sampleRate c1 = sampleRate c0"
    and "ambienceNode (setAmbience p ty a) = Some (nextId c0 + 1)"
    and "lfo (setAmbience p ty a) = None"
    and "masterGain (setAmbience p ty a) = masterGain (resume (init p a))"
    and "ambienceGain (setAmbience p ty a) = Some ag"
    and "currentAmbienceType (setAmbience p ty a) = Some ty"
    and "timeouts (setAmbience p ty a) = timeouts (resume (init p a))"
proof -
  let ?a0 = "resume (init p a)"
  let ?c' = "emit (teardownCalls ?a0 @ rampCalls ag (currentTime c0)) c0"
  let ?a' = "?a0\<lparr>currentAmbienceType := Some ty, ambienceNode := None, lfo := None,
                 ctx := Some ?c'\<rparr>"
  have e: "setAmbience p ty a = buildNoise ty ag ?a'"
    using assms(4) by (auto simp: setAmbience_via [OF assms(1-3)] Let_def)
  have c: "ctx ?a' = Some ?c'" by simp
  note b = buildNoise_eq [OF c assms(4), of ag]
  show "\<exists>c1. ctx (setAmbience p ty a) = Some c1 \<and>
           calls c1 = calls c0 @ teardownCalls (resume (init p a)) @
                        rampCalls ag (currentTime c0) @
                        noiseCalls ty (nextId c0) ag (sampleRate c0) \<and>
           nextId c1 = nextId c0 + 3 \<and> currentTime c1 = currentTime c0 \<and>
           state c1 = state c0 \<and> sampleRate c1 = sampleRate c0"
    unfolding e b by simp
  show "ambienceNode (setAmbience p ty a) = Some (nextId c0 + 1)"
    unfolding e b by simp
  show "lfo (setAmbience p ty a) = None"
    unfolding e b by simp
  show "masterGain (setAmbience p ty a) = masterGain (resume (init p a))"
    unfolding e b by simp
  show "ambienceGain (setAmbience p ty a) = Some ag"
    unfolding e b using assms(2) by simp
  show "currentAmbienceType (setAmbience p ty a) = Some ty"
    unfolding e b by simp
  show "timeouts (setAmbience p ty a) = timeouts (resume (init p a))"
    unfolding e b by simp
qed

lemma build_no_stop:
  assumes "ctx a = Some c" and "m \<noteq> Eerie"
  shows "\<exists>c1 xs. ctx (case m of Mechanical \<Rightarrow> buildMechanical ag c a
                           | Eerie \<Rightarrow> buildEerie ag c a
                           | _ \<Rightarrow> buildNoise m ag a) = Some c1 \<and>
           calls c1 = calls c @ xs \<and> filter isStop xs = []"
  using assms
  by (cases m)
    (auto simp: buildMechanical_def buildNoise_def createNoiseBuffer_def createBuffer_def
      createOscillator_def createGain_def createBufferSource_def createBiquadFilter_def
      createNode_def emit_def Let_def)

lemma setAmbience_switch_stops:
  assumes "ctx b = Some cb" and "masterGain b = Some mg" and "ambienceGain b = Some ag"
    and "currentAmbienceType b \<noteq> Some m" and "m \<noteq> Eerie"
  shows "filter isStop (drop (length (calls cb)) (calls (the (ctx (setAmbience p m b))))) =
           teardownCalls b"
proof -
  let ?c0 = "emit (resumeCalls mg cb) cb"
  have r: "resume (init p b) = b\<lparr>ctx := Some ?c0\<rparr>"
    using assms(1,2) by (rule resume_init)
  have c0: "ctx (resume (init p b)) = Some ?c0" "ambienceGain (resume (init p b)) = Some ag"
    using assms(3) by (simp_all add: r)
  have td: "teardownCalls (resume (init p b)) = teardownCalls b"
    unfolding r
    by (rule teardownCalls_cong [where c' = ?c0 and c = cb]) (simp_all add: assms)
  let ?c' = "emit (teardownCalls b @ rampCalls ag (currentTime cb)) ?c0"
  let ?a' = "(resume (init p b))\<lparr>currentAmbienceType := Some m, ambienceNode := None,
                 lfo := None, ctx := Some ?c'\<rparr>"
  have e: "setAmbience p m b =
      (case m of Mechanical \<Rightarrow> buildMechanical ag ?c' ?a'
               | Eerie \<Rightarrow> buildEerie ag ?c' ?a'
               | _ \<Rightarrow> buildNoise m ag ?a')"
    using setAmbience_via [OF c0 assms(4)] unfolding td Let_def
    by (cases m) simp_all
  have "ctx ?a' = Some ?c'" by simp
  from build_no_stop [OF this assms(5), of ag]
  obtain c1 xs where x: "ctx (setAmbience p m b) = Some c1" "calls c1 = calls ?c' @ xs"
      "filter isStop xs = []"
    unfolding e by blast
  show ?thesis
    by (simp add: x)
qed

lemma fresh_no_stop:
  "knownCalls k cs \<Longrightarrow> k \<le> j \<Longrightarrow> filter (\<lambda>e. isStop e \<and> j \<in> set (callIds e)) cs = []"
  by (fastforce simp: knownCalls_def list_all_iff filter_empty_conv)

lemma knownCalls_teardownCalls:
  "wfAudio a \<Longrightarrow> ctx a = Some c \<Longrightarrow> knownCalls (nextId c) (teardownCalls a)"
  by (auto simp: wfAudio_def known_def teardownCalls_def split: option.splits)

lemma knownCalls_rampCalls: "ag < k \<Longrightarrow> knownCalls k (rampCalls ag t)"
  by (simp add: rampCalls_def)

lemma teardownCalls_node:
  "ctx a = Some c \<Longrightarrow> ambienceNode a = Some n \<Longrightarrow> lfo a = None \<Longrightarrow> started (calls c) n \<Longrightarrow>
     teardownCalls a = [Stop n 0]"
  by (simp add: teardownCalls_def)

lemma stop_timeout_stop_calls:
  assumes "ctx a = Some c" and "masterGain a = Some mg"
  shows "\<exists>c'. ctx (stop_timeout (stop a)) = Some c' \<and>
           calls c' = calls c @ [SetTargetAtTime mg P_gain 0 (currentTime c) (1/10)] @
             teardownCalls a @ (if state c \<noteq> Closed then [CtxSuspend] else [])"
proof -
  let ?c = "emit [SetTargetAtTime mg P_gain 0 (currentTime c) (1/10)] c"
  have s: "stop a = a\<lparr>ctx := Some ?c, timeouts := timeouts a @ [200]\<rparr>"
    using assms by (simp add: stop_def Let_def)
  have c: "ctx (stop a) = Some ?c" by (simp add: s)
  have td: "teardownCalls (stop a) = teardownCalls a"
    by (rule teardownCalls_cong [where c' = ?c and c = c])
      (simp_all add: s assms started_def)
  show ?thesis
    by (simp add: stop_timeout_def stopAmbience_eq [OF c] td Let_def)
qed

lemma started_Nil [simp]: "\<not> started [] n"
  by (simp add: started_def)

lemma started_Cons [simp]: "started (e # cs) n \<longleftrightarrow> e = Start n \<or> started cs n"
  by (auto simp: started_def)

lemma stoppedBy_Nil [simp]: "\<not> stoppedBy [] t n"
  by (simp add: stoppedBy_def)

lemma stoppedBy_Cons [simp]:
  "stoppedBy (e # cs) t n \<longleftrightarrow>
     (case e of Stop m w \<Rightarrow> m = n \<and> w \<le> t | _ \<Rightarrow> False) \<or> stoppedBy cs t n"
  by (simp add: stoppedBy_def)

lemma noiseCalls_last:
  "\<exists>xs. noiseCalls ty n ag rate = xs @ [Start (n + 1)] \<and> (\<forall>k. \<not> started xs k)"
  by (simp add: noiseCalls_def started_def)

lemma never_both_running:
  assumes "cs = front @ [Start s]" and "\<not> started front s" and "stoppedBy front t s'"
  shows "\<not> (runningIn (take j cs) t s' \<and> runningIn (take j cs) t s)"
proof (cases "j \<le> length front")
  case True
  then have "take j cs = take j front" using assms(1) by simp
  moreover have "\<not> started (take j front) s"
    using assms(2) by (auto simp: started_def dest: in_set_takeD)
  ultimately show ?thesis by (simp add: runningIn_def)
next
  case False
  then have "take j cs = cs" using assms(1) by simp
  then show ?thesis using assms(1,3) by (simp add: runningIn_def)
qed

lemma not_started_not_running: "\<not> started cs s \<Longrightarrow> \<not> runningIn (take j cs) t s"
  by (auto simp: runningIn_def started_def dest: in_set_takeD)

lemma set_teardownCalls:
  "ctx a = Some c \<Longrightarrow>
     Stop s 0 \<in> set (teardownCalls a) \<longleftrightarrow> tracked a s \<and> started (calls c) s"
  by (auto simp: teardownCalls_def tracked_def split: option.splits)

lemma takeWhile_switch:
  "takeWhile (\<lambda>e. \<not> isCreate e)
     (resumeCalls mg c @ teardownCalls a @ rampCalls ag t @ noiseCalls ty n ag' rate) =
   resumeCalls mg c @ teardownCalls a @ rampCalls ag t"
proof -
  have a: "\<forall>e \<in> set (resumeCalls mg c). \<not> isCreate e"
    by (auto simp: resumeCalls_def)
  have b: "\<forall>e \<in> set (teardownCalls a). \<not> isCreate e"
    by (cases "ctx a"; cases "ambienceNode a"; cases "lfo a") (auto simp: teardownCalls_def)
  have c: "\<forall>e \<in> set (rampCalls ag t). \<not> isCreate e"
    by (simp add: rampCalls_def)
  have d: "takeWhile (\<lambda>e. \<not> isCreate e) (noiseCalls ty n ag' rate) = []"
    by (simp add: noiseCalls_def)
  show ?thesis
    using a b c by (simp add: d)
qed

lemma switch_to_noise:
  fixes p :: platform
  assumes w: "wfAudio b" and c: "ctx b = Some cb" and ne: "currentAmbienceType b \<noteq> Some ty"
    and ty: "ty = Calm \<or> ty = Chaos"
  defines "b' \<equiv> setAmbience p ty b"
  defines "s' \<equiv> nextId cb + 1"
  defines "t \<equiv> currentTime cb"
  shows "\<exists>cb'. ctx b' = Some cb' \<and> currentTime cb' = t \<and> nextId cb' = nextId cb + 3 \<and>
           take (length (calls cb)) (calls cb') = calls cb \<and>
           CreateBufferSource s' \<in> set (calls cb') \<and>
           runningIn (calls cb') t s' \<and>
           (\<forall>s. tracked b s \<longrightarrow>
              \<not> runningIn (calls cb') t s \<and>
              (started (calls cb) s \<longrightarrow>
                 Stop s 0 \<in> set (takeWhile (\<lambda>e. \<not> isCreate e) (drop (length (calls cb)) (calls cb')))) \<and>
              (\<forall>j. \<not> (runningIn (take j (calls cb')) t s \<and> runningIn (take j (calls cb')) t s'))) \<and>
           (\<forall>k. runningIn (calls cb') t k \<longleftrightarrow>
              k = s' \<or> (runningIn (calls cb) t k \<and> \<not> tracked b k))"
    and "currentAmbienceType b' = Some ty" and "ambienceNode b' = Some s'" and "lfo b' = None"
proof -
  obtain mg ag where g: "masterGain b = Some mg" "ambienceGain b = Some ag" "ag < nextId cb"
    using wfAudio_ctxD(1) [OF w c] by auto
  note k0 = wfAudio_ctxD(2) [OF w c] and t0 = wfAudio_ctxD(3) [OF w c]
    and kn = wfAudio_ctxD(4,5) [OF w c]
  let ?c0 = "emit (resumeCalls mg cb) cb"
  have r: "resume (init p b) = b\<lparr>ctx := Some ?c0\<rparr>"
    using c g(1) by (rule resume_init)
  have c0: "ctx (resume (init p b)) = Some ?c0" "ambienceGain (resume (init p b)) = Some ag"
    using g(2) by (simp_all add: r)
  have td: "teardownCalls (resume (init p b)) = teardownCalls b"
    unfolding r by (rule teardownCalls_cong [where c' = ?c0 and c = cb]) (simp_all add: c)
  note e = setAmbience_noise [OF c0 ne ty, folded b'_def, unfolded td]
  obtain cb' where cb': "ctx b' = Some cb'"
      "calls cb' = calls cb @ resumeCalls mg cb @ teardownCalls b @ rampCalls ag t @
         noiseCalls ty (nextId cb) ag (sampleRate cb)"
      "nextId cb' = nextId cb + 3" "currentTime cb' = t"
    using e(1) by (auto simp: t_def)
  show "currentAmbienceType b' = Some ty" "ambienceNode b' = Some s'" "lfo b' = None"
    using e(2,3,6) by (simp_all add: s'_def)
  have t0': "0 \<le> t" using t0 by (simp add: t_def)
  have below: "s < nextId cb" if "tracked b s" for s
    using kn that by (auto simp: known_def tracked_def)
  have "nextId cb \<le> s'" by (simp add: s'_def)
  then have fresh: "\<not> stoppedBy (calls cb) t s'" "\<not> started (calls cb) s'" "\<not> tracked b s'"
    using fresh_not_stopped [OF k0] fresh_not_started [OF k0] below [of s'] by auto
  have st: "started (calls cb') k \<longleftrightarrow> started (calls cb) k \<or> k = s'" for k
    by (simp add: cb' s'_def)
  have sp: "stoppedBy (calls cb') t k \<longleftrightarrow>
      stoppedBy (calls cb) t k \<or> (tracked b k \<and> started (calls cb) k)" for k
    using t0' by (simp add: cb' stoppedBy_teardownCalls [OF c] tracked_def)
  have R: "runningIn (calls cb') t k \<longleftrightarrow>
      k = s' \<or> (runningIn (calls cb) t k \<and> \<not> tracked b k)" for k
    using fresh by (auto simp: runningIn_def st sp)
  have A: "take (length (calls cb)) (calls cb') = calls cb"
    by (simp add: cb')
  have B: "CreateBufferSource s' \<in> set (calls cb')"
    by (simp add: cb' noiseCalls_def s'_def)
  have C: "runningIn (calls cb') t s'"
    by (simp add: R)
  obtain xs where xs: "noiseCalls ty (nextId cb) ag (sampleRate cb) = xs @ [Start s']"
      "\<forall>k. \<not> started xs k"
    using noiseCalls_last unfolding s'_def by blast
  let ?front = "calls cb @ resumeCalls mg cb @ teardownCalls b @ rampCalls ag t @ xs"
  have fr: "calls cb' = ?front @ [Start s']"
    by (simp add: cb' xs)
  have D: "\<not> runningIn (calls cb') t s \<and>
      (started (calls cb) s \<longrightarrow>
         Stop s 0 \<in> set (takeWhile (\<lambda>e. \<not> isCreate e) (drop (length (calls cb)) (calls cb')))) \<and>
      (\<forall>j. \<not> (runningIn (take j (calls cb')) t s \<and> runningIn (take j (calls cb')) t s'))"
    if tr: "tracked b s" for s
  proof (intro conjI allI impI)
    show "\<not> runningIn (calls cb') t s"
      using tr fresh(3) by (auto simp: R)
    show "Stop s 0 \<in> set (takeWhile (\<lambda>e. \<not> isCreate e) (drop (length (calls cb)) (calls cb')))"
      if "started (calls cb) s"
      using that tr by (simp add: cb' takeWhile_switch set_teardownCalls [OF c])
    show "\<not> (runningIn (take j (calls cb')) t s \<and> runningIn (take j (calls cb')) t s')" for j
    proof (cases "started (calls cb) s")
      case True
      show ?thesis
      proof (rule never_both_running [OF fr])
        show "\<not> started ?front s'" using fresh(2) xs(2) by simp
        show "stoppedBy ?front t s"
          using True tr t0' by (simp add: stoppedBy_teardownCalls [OF c] tracked_def)
      qed
    next
      case False
      have "s \<noteq> s'" using tr fresh(3) by auto
      then have "\<not> started (calls cb') s" using False by (simp add: st)
      then show ?thesis by (simp add: not_started_not_running)
    qed
  qed
  have D': "\<forall>s. tracked b s \<longrightarrow>
      \<not> runningIn (calls cb') t s \<and>
      (started (calls cb) s \<longrightarrow>
         Stop s 0 \<in> set (takeWhile (\<lambda>e. \<not> isCreate e) (drop (length (calls cb)) (calls cb')))) \<and>
      (\<forall>j. \<not> (runningIn (take j (calls cb')) t s \<and> runningIn (take j (calls cb')) t s'))"
    using D by (intro allI impI)
  have R': "\<forall>k. runningIn (calls cb') t k \<longleftrightarrow>
      k = s' \<or> (runningIn (calls cb) t k \<and> \<not> tracked b k)"
    using R by (intro allI)
  show "\<exists>cb'. ctx b' = Some cb' \<and> currentTime cb' = t \<and> nextId cb' = nextId cb + 3 \<and>
           take (length (calls cb)) (calls cb') = calls cb \<and>
           CreateBufferSource s' \<in> set (calls cb') \<and>
           runningIn (calls cb') t s' \<and>
           (\<forall>s. tracked b s \<longrightarrow>
              \<not> runningIn (calls cb') t s \<and>
              (started (calls cb) s \<longrightarrow>
                 Stop s 0 \<in> set (takeWhile (\<lambda>e. \<not> isCreate e) (drop (length (calls cb)) (calls cb')))) \<and>
              (\<forall>j. \<not> (runningIn (take j (calls cb')) t s \<and> runningIn (take j (calls cb')) t s'))) \<and>
           (\<forall>k. runningIn (calls cb') t k \<longleftrightarrow>
              k = s' \<or> (runningIn (calls cb) t k \<and> \<not> tracked b k))"
    by (intro exI [of _ cb'] conjI cb'(1,3,4) A B C D' R')
qed

lemma runningIn_resumeCalls [simp]:
  "runningIn (cs @ resumeCalls mg c) t k \<longleftrightarrow> runningIn cs t k"
  by (simp add: runningIn_def)

subsection \<open>Example states\<close>

lemma exAudio_eq:
  "exAudio =
     \<lparr>ctx = Some \<lparr>state = Suspended, currentTime = 0, sampleRate = 48000, nextId = 2,
                  calls = [CreateGain 0, SetValue 0 P_gain (1/2), Connect 0 Destination,
                           CreateGain 1, Connect 1 (ToNode 0), CtxResume]\<rparr>,
      masterGain = Some 0, ambienceNode = None, ambienceGain = Some 1, lfo = None,
      currentAmbienceType = None, timeouts = []\<rparr>"
  by (simp add: exAudio_def init_def newAudioManager_def newAudioContext_def exPlatform_def
      createGain_def createNode_def emit_def Let_def)

lemma exCalm_eq:
  "exCalm =
     \<lparr>ctx = Some \<lparr>state = Suspended, currentTime = 0, sampleRate = 48000, nextId = 5,
                  calls = [CreateGain 0, SetValue 0 P_gain (1/2), Connect 0 Destination,
                           CreateGain 1, Connect 1 (ToNode 0), CtxResume, CtxResume, CtxResume,
                           SetTargetAtTime 0 P_gain (1/2) 0 (1/10),
                           CancelScheduledValues 1 P_gain 0, SetValueAtTime 1 P_gain 0 0,
                           LinearRampToValueAtTime 1 P_gain (3/10) 2,
                           CreateBuffer 2 1 96000 48000, FillRandom 2 96000,
                           CreateBufferSource 3, SetBuffer 3 2, SetLoop 3 True,
                           CreateBiquadFilter 4, SetFilterType 4 Lowpass,
                           SetValue 4 P_frequency 300,
                           Connect 3 (ToNode 4), Connect 4 (ToNode 1), Start 3]\<rparr>,
      masterGain = Some 0, ambienceNode = Some 3, ambienceGain = Some 1, lfo = None,
      currentAmbienceType = Some Calm, timeouts = []\<rparr>"
  by (simp add: exCalm_def exAudio_eq setAmbience_def init_def resume_def stopAmbience_def
      buildNoise_def createNoiseBuffer_def createBuffer_def createBufferSource_def
      createBiquadFilter_def createNode_def emit_def Let_def)

lemma exEerie_eq:
  "exEerie =
     \<lparr>ctx = Some \<lparr>state = Suspended, currentTime = 0, sampleRate = 48000, nextId = 5,
                  calls = [CreateGain 0, SetValue 0 P_gain (1/2), Connect 0 Destination,
                           CreateGain 1, Connect 1 (ToNode 0), CtxResume, CtxResume, CtxResume,
                           SetTargetAtTime 0 P_gain (1/2) 0 (1/10),
                           CancelScheduledValues 1 P_gain 0, SetValueAtTime 1 P_gain 0 0,
                           LinearRampToValueAtTime 1 P_gain (3/10) 2,
                           CreateOscillator 2, SetOscType 2 Sine, SetValue 2 P_frequency 150,
                           CreateOscillator 3, SetOscType 3 Sine, SetValue 3 P_frequency 154,
                           CreateGain 4, SetValue 4 P_gain (1/10),
                           Connect 2 (ToNode 4), Connect 3 (ToNode 4), Connect 4 (ToNode 1),
                           Start 2, Start 3, Stop 3 600]\<rparr>,
      masterGain = Some 0, ambienceNode = Some 2, ambienceGain = Some 1, lfo = None,
      currentAmbienceType = Some Eerie, timeouts = []\<rparr>"
  by (simp add: exEerie_def exAudio_eq setAmbience_def init_def resume_def stopAmbience_def
      buildEerie_def createOscillator_def createGain_def createNode_def emit_def Let_def)

lemma exAudio_reachable: "reachable exPlatform exAudio"
  unfolding exAudio_def by (intro r_init r_new)

lemma exCalm_reachable: "reachable exPlatform exCalm"
  unfolding exCalm_def by (intro r_setAmbience exAudio_reachable)

lemma exEerie_reachable: "reachable exPlatform exEerie"
  unfolding exEerie_def by (intro r_setAmbience exAudio_reachable)

subsection \<open>The claims about the ambience\<close>

text \<open>
  Claim C5.  In a reachable state whose current ambience type is \<open>m\<close>, \<open>setAmbience m\<close>
  does nothing to the ambience graph: it creates no node and no buffer, stops no node,
  and leaves \<open>currentAmbienceType\<close>, \<open>ambienceNode\<close> and \<open>lfo\<close> as they were.  All it
  adds to the calls are those of \<open>init\<close> and \<open>resume\<close> on a suspended context: two
  requests to resume and the ramp of the master gain.
\<close>

theorem same_mood_is_noop:
  assumes "reachable p a" and "currentAmbienceType a = Some m"
  shows "let a' = setAmbience p m a; c = the (ctx a); c' = the (ctx a') in
           ctx a \<noteq> None \<and> ctx a' \<noteq> None \<and>
           currentAmbienceType a' = currentAmbienceType a \<and>
           ambienceNode a' = ambienceNode a \<and> lfo a' = lfo a \<and>
           ambienceGain a' = ambienceGain a \<and> masterGain a' = masterGain a \<and>
           nextId c' = nextId c \<and>
           calls c' = calls c @
             (if state c = Suspended
              then [CtxResume, CtxResume,
                    SetTargetAtTime (the (masterGain a)) P_gain (1/2) (currentTime c) (1/10)]
              else []) \<and>
           filter isCreate (calls c') = filter isCreate (calls c) \<and>
           filter isStop (calls c') = filter isStop (calls c)"
proof -
  have "wfAudio a" using assms(1) by (rule reachable_wf)
  then obtain c mg where "ctx a = Some c" "masterGain a = Some mg"
      "setAmbience p m a = a\<lparr>ctx := Some (emit (resumeCalls mg c) c)\<rparr>"
    using setAmbience_same [OF _ assms(2), of p] by blast
  then show ?thesis
    by (simp add: Let_def) (simp add: resumeCalls_def)
qed

theorem same_mood_is_noop_witness:
  "reachable exPlatform exCalm \<and> currentAmbienceType exCalm = Some Calm \<and>
   ambienceNode (setAmbience exPlatform Calm exCalm) = Some 3 \<and>
   lfo (setAmbience exPlatform Calm exCalm) = None \<and>
   nextId (the (ctx (setAmbience exPlatform Calm exCalm))) = 5 \<and>
   drop 23 (calls (the (ctx (setAmbience exPlatform Calm exCalm)))) =
     [CtxResume, CtxResume, SetTargetAtTime 0 P_gain (1/2) 0 (1/10)]"
proof -
  have h: "currentAmbienceType exCalm = Some Calm"
    by (simp add: exCalm_eq)
  show ?thesis
    using exCalm_reachable h same_mood_is_noop [OF exCalm_reachable h]
    by (simp add: Let_def exCalm_eq)
qed


text \<open>
  Claim C6.  Take a reachable state with a context, and call \<open>setAmbience Calm\<close> and then
  \<open>setAmbience Chaos\<close>.  After the first call the current type is calm; when it was not
  calm before, the call has built the calm graph, whose noise source \<open>s1\<close> is the
  tracked node and is running.  After the second call the current type is chaos, the
  tracked node is the noise source \<open>s2\<close> of the chaos graph, which is running, and
  the fields no longer name a node of the calm state.  Every node \<open>s\<close> that was
  tracked after the first call is not running at the end; if it had been started, its
  stop comes, among the calls of the second \<open>setAmbience\<close>, before the first call
  that creates a node or a buffer; and after no prefix of the calls are \<open>s\<close> and \<open>s2\<close>
  both running.  When every source that was running at the start was a tracked one (as
  in a context just initialized, where none is running), \<open>s2\<close> is the only running
  source at the end.
\<close>

theorem calm_then_chaos_one_graph:
  assumes "reachable p a" and "ctx a \<noteq> None"
  shows "let t = currentTime (the (ctx a));
             a1 = setAmbience p Calm a; a2 = setAmbience p Chaos a1;
             cs = calls (the (ctx a)); cs1 = calls (the (ctx a1)); cs2 = calls (the (ctx a2));
             s1 = nextId (the (ctx a)) + 1; s2 = nextId (the (ctx a1)) + 1 in
           currentAmbienceType a1 = Some Calm \<and>
           (currentAmbienceType a \<noteq> Some Calm \<longrightarrow>
              ambienceNode a1 = Some s1 \<and> lfo a1 = None \<and>
              CreateBufferSource s1 \<in> set cs1 \<and> runningIn cs1 t s1) \<and>
           currentAmbienceType a2 = Some Chaos \<and> ambienceNode a2 = Some s2 \<and> lfo a2 = None \<and>
           CreateBufferSource s2 \<in> set cs2 \<and> runningIn cs2 t s2 \<and>
           take (length cs1) cs2 = cs1 \<and>
           (\<forall>s. tracked a1 s \<longrightarrow>
              \<not> runningIn cs2 t s \<and>
              (started cs1 s \<longrightarrow>
                 Stop s 0 \<in> set (takeWhile (\<lambda>e. \<not> isCreate e) (drop (length cs1) cs2))) \<and>
              (\<forall>j. \<not> (runningIn (take j cs2) t s \<and> runningIn (take j cs2) t s2))) \<and>
           ((\<forall>k. runningIn cs t k \<longrightarrow> tracked a k) \<longrightarrow> (\<forall>k. runningIn cs2 t k \<longleftrightarrow> k = s2))"
proof -
  have w: "wfAudio a" using assms(1) by (rule reachable_wf)
  obtain c where c: "ctx a = Some c" using assms(2) by auto
  define t where "t = currentTime c"
  define a1 where "a1 = setAmbience p Calm a"
  define a2 where "a2 = setAmbience p Chaos a1"
  have w1: "wfAudio a1"
    unfolding a1_def by (rule reachable_wf [OF r_setAmbience [OF assms(1)]])
  \<comment> \<open>the first call\<close>
  have first: "\<exists>c1. ctx a1 = Some c1 \<and> currentTime c1 = t \<and>
      ((\<forall>k. runningIn (calls c) t k \<longrightarrow> tracked a k) \<longrightarrow>
         (\<forall>k. runningIn (calls c1) t k \<longrightarrow> tracked a1 k)) \<and>
      (currentAmbienceType a \<noteq> Some Calm \<longrightarrow>
         ambienceNode a1 = Some (nextId c + 1) \<and> lfo a1 = None \<and>
         CreateBufferSource (nextId c + 1) \<in> set (calls c1) \<and>
         runningIn (calls c1) t (nextId c + 1))"
    and ty1: "currentAmbienceType a1 = Some Calm"
  proof -
    show "\<exists>c1. ctx a1 = Some c1 \<and> currentTime c1 = t \<and>
      ((\<forall>k. runningIn (calls c) t k \<longrightarrow> tracked a k) \<longrightarrow>
         (\<forall>k. runningIn (calls c1) t k \<longrightarrow> tracked a1 k)) \<and>
      (currentAmbienceType a \<noteq> Some Calm \<longrightarrow>
         ambienceNode a1 = Some (nextId c + 1) \<and> lfo a1 = None \<and>
         CreateBufferSource (nextId c + 1) \<in> set (calls c1) \<and>
         runningIn (calls c1) t (nextId c + 1))"
    proof (cases "currentAmbienceType a = Some Calm")
      case True
      obtain c' mg where "ctx a = Some c'" "masterGain a = Some mg"
          "setAmbience p Calm a = a\<lparr>ctx := Some (emit (resumeCalls mg c') c')\<rparr>"
        using setAmbience_same [OF w True, of p] by blast
      then have "a1 = a\<lparr>ctx := Some (emit (resumeCalls mg c) c)\<rparr>"
        using c by (simp add: a1_def)
      then show ?thesis
        using True by (simp add: t_def tracked_def)
    next
      case False
      note sw = switch_to_noise [OF w c False, of p, simplified, folded a1_def t_def]
      obtain c1 where c1: "ctx a1 = Some c1" "currentTime c1 = t"
          "CreateBufferSource (nextId c + 1) \<in> set (calls c1)"
          "runningIn (calls c1) t (nextId c + 1)"
          "\<forall>k. runningIn (calls c1) t k \<longleftrightarrow>
             k = nextId c + 1 \<or> (runningIn (calls c) t k \<and> \<not> tracked a k)"
        using sw(1) by auto
      have "tracked a1 (nextId c + 1)"
        using sw(3) by (simp add: tracked_def)
      then show ?thesis
        using c1 sw(3,4) by auto
    qed
    show "currentAmbienceType a1 = Some Calm"
    proof (cases "currentAmbienceType a = Some Calm")
      case True
      then show ?thesis
        using setAmbience_same [OF w True, of p] by (auto simp: a1_def)
    next
      case False
      then show ?thesis
        using switch_to_noise(2) [OF w c False, of p] by (simp add: a1_def)
    qed
  qed
  then obtain c1 where c1: "ctx a1 = Some c1" "currentTime c1 = t"
      "(\<forall>k. runningIn (calls c) t k \<longrightarrow> tracked a k) \<longrightarrow>
         (\<forall>k. runningIn (calls c1) t k \<longrightarrow> tracked a1 k)"
      "currentAmbienceType a \<noteq> Some Calm \<longrightarrow>
         ambienceNode a1 = Some (nextId c + 1) \<and> lfo a1 = None \<and>
         CreateBufferSource (nextId c + 1) \<in> set (calls c1) \<and>
         runningIn (calls c1) t (nextId c + 1)"
    by blast
  \<comment> \<open>the second call\<close>
  have ne: "currentAmbienceType a1 \<noteq> Some Chaos" by (simp add: ty1)
  note sw2 = switch_to_noise [OF w1 c1(1) ne, of p, simplified, folded a2_def, unfolded c1(2)]
  obtain c2 where c2: "ctx a2 = Some c2"
      "take (length (calls c1)) (calls c2) = calls c1"
      "CreateBufferSource (nextId c1 + 1) \<in> set (calls c2)"
      "runningIn (calls c2) t (nextId c1 + 1)"
      "\<forall>s. tracked a1 s \<longrightarrow>
         \<not> runningIn (calls c2) t s \<and>
         (started (calls c1) s \<longrightarrow>
            Stop s 0 \<in> set (takeWhile (\<lambda>e. \<not> isCreate e) (drop (length (calls c1)) (calls c2)))) \<and>
         (\<forall>j. \<not> (runningIn (take j (calls c2)) t s \<and>
                  runningIn (take j (calls c2)) t (nextId c1 + 1)))"
      "\<forall>k. runningIn (calls c2) t k \<longleftrightarrow>
         k = nextId c1 + 1 \<or> (runningIn (calls c1) t k \<and> \<not> tracked a1 k)"
    using sw2(1) by auto
  have one: "(\<forall>k. runningIn (calls c) t k \<longrightarrow> tracked a k) \<longrightarrow>
      (\<forall>k. runningIn (calls c2) t k \<longleftrightarrow> k = nextId c1 + 1)"
    using c1(3) c2(6) by blast
  show ?thesis
    unfolding Let_def a1_def [symmetric] a2_def [symmetric]
    using c c1(1,4) c2(1-5) ty1 sw2(2-4) one
    by (simp add: t_def [symmetric])
qed

theorem calm_then_chaos_one_graph_witness:
  "reachable exPlatform exAudio \<and> ctx exAudio \<noteq> None \<and>
   \<not> (\<exists>k. runningIn (calls (the (ctx exAudio))) (currentTime (the (ctx exAudio))) k) \<and>
   ambienceNode exCalm = Some 3 \<and> runningIn (calls (the (ctx exCalm))) 0 3 \<and>
   ambienceNode (setAmbience exPlatform Chaos exCalm) = Some 6 \<and>
   (\<forall>k. runningIn (calls (the (ctx (setAmbience exPlatform Chaos exCalm)))) 0 k = (k = 6)) \<and>
   Stop 3 0 \<in> set (takeWhile (\<lambda>e. \<not> isCreate e)
     (drop 23 (calls (the (ctx (setAmbience exPlatform Chaos exCalm))))))"
proof -
  have h2: "ctx exAudio \<noteq> None" and h3: "currentAmbienceType exAudio \<noteq> Some Calm"
    by (simp_all add: exAudio_eq)
  have n: "nextId (the (ctx exAudio)) = 2" "currentTime (the (ctx exAudio)) = 0"
    by (simp_all add: exAudio_eq)
  have r: "\<not> (\<exists>k. runningIn (calls (the (ctx exAudio))) 0 k)"
    by (simp add: exAudio_eq runningIn_def started_def)
  have l: "length (calls (the (ctx exCalm))) = 23" "nextId (the (ctx exCalm)) = 5"
      "tracked exCalm 3" "started (calls (the (ctx exCalm))) 3"
    by (simp_all add: exCalm_eq tracked_def started_def)
  note th = calm_then_chaos_one_graph [OF exAudio_reachable h2,
      unfolded Let_def n, folded exCalm_def, unfolded l]
  show ?thesis
    using exAudio_reachable h2 h3 r l(3,4) th by (simp add: n)
qed


text \<open>
  Claim C8.  \<open>setAmbience Eerie\<close>, when eerie is not the current type, ends with the
  calls of the eerie branch: two sine oscillators \<open>n\<close> (150 Hz) and \<open>n + 1\<close> (154 Hz)
  into one gain node, both started, and a stop of the second at 600 seconds after the
  current time.  Only the first is tracked (\<open>ambienceNode\<close>), and no LFO is.  The
  teardown \<open>stopAmbience\<close> adds the single call that stops the first oscillator; the
  only stop of the second oscillator among all calls is the one at 600 seconds.  The
  same holds for the teardown inside a following \<open>setAmbience\<close> with another mood and
  inside the callback of \<open>stop\<close>.  So when the teardown runs less than 600 seconds
  later, the second oscillator is still running and the first is not.
\<close>

theorem eerie_second_oscillator_untracked:
  assumes "reachable p a" and "currentAmbienceType a \<noteq> Some Eerie"
  shows "let a0 = resume (init p a); c0 = the (ctx a0); n = nextId c0; t = currentTime c0;
             ag = the (ambienceGain a0); a1 = setAmbience p Eerie a;
             cs1 = calls (the (ctx a1)) in
           drop (length cs1 - 14) cs1 =
             [CreateOscillator n, SetOscType n Sine, SetValue n P_frequency 150,
              CreateOscillator (n + 1), SetOscType (n + 1) Sine,
              SetValue (n + 1) P_frequency 154,
              CreateGain (n + 2), SetValue (n + 2) P_gain (1/10),
              Connect n (ToNode (n + 2)), Connect (n + 1) (ToNode (n + 2)),
              Connect (n + 2) (ToNode ag),
              Start n, Start (n + 1), Stop (n + 1) (t + 600)] \<and>
           ambienceNode a1 = Some n \<and> lfo a1 = None \<and>
           calls (the (ctx (stopAmbience a1))) = cs1 @ [Stop n 0] \<and>
           filter (\<lambda>e. isStop e \<and> n + 1 \<in> set (callIds e))
               (calls (the (ctx (stopAmbience a1)))) = [Stop (n + 1) (t + 600)] \<and>
           (\<forall>m. m \<noteq> Eerie \<longrightarrow>
              filter isStop (drop (length cs1) (calls (the (ctx (setAmbience p m a1))))) =
                [Stop n 0]) \<and>
           filter isStop (drop (length cs1) (calls (the (ctx (stop_timeout (stop a1)))))) =
             [Stop n 0] \<and>
           (\<forall>d. 0 \<le> d \<and> d < 600 \<longrightarrow>
              runningIn (calls (the (ctx (stopAmbience (advanceTime d a1))))) (t + d) (n + 1) \<and>
              \<not> runningIn (calls (the (ctx (stopAmbience (advanceTime d a1))))) (t + d) n)"
proof -
  define a0 where "a0 = resume (init p a)"
  have w0: "wfAudio a0"
    unfolding a0_def by (rule reachable_wf [OF reachable_resume_init [OF assms(1)]])
  obtain c0 where c0: "ctx a0 = Some c0"
    using resume_init_fields [of p a] by (auto simp: a0_def)
  obtain mg ag where g: "masterGain a0 = Some mg" "ambienceGain a0 = Some ag" "ag < nextId c0"
    using wfAudio_ctxD(1) [OF w0 c0] by auto
  note k0 = wfAudio_ctxD(2) [OF w0 c0] and t0 = wfAudio_ctxD(3) [OF w0 c0]
  define n where "n = nextId c0"
  define t where "t = currentTime c0"
  define a1 where "a1 = setAmbience p Eerie a"
  note e = setAmbience_eerie [OF c0 [unfolded a0_def] g(2) [unfolded a0_def] assms(2),
      folded a0_def a1_def n_def t_def]
  obtain c1 where c1: "ctx a1 = Some c1"
      "calls c1 = calls c0 @ teardownCalls a0 @ rampCalls ag t @ eerieCalls n ag t"
      "nextId c1 = n + 3" "currentTime c1 = t" "state c1 = state c0"
    using e(1) by blast
  have f: "ambienceNode a1 = Some n" "lfo a1 = None" "masterGain a1 = Some mg"
      "ambienceGain a1 = Some ag" "currentAmbienceType a1 = Some Eerie"
    using e(2-6) g by simp_all
  have old: "knownCalls n (calls c0 @ teardownCalls a0 @ rampCalls ag t)"
    using k0 knownCalls_teardownCalls [OF w0 c0] knownCalls_rampCalls [OF g(3)]
    by (simp add: n_def)
  have td1: "teardownCalls a1 = [Stop n 0]"
    by (rule teardownCalls_node [OF c1(1) f(1,2)]) (simp add: c1)
  have A: "drop (length (calls c1) - 14) (calls c1) = eerieCalls n ag t"
    by (simp add: c1)
  have B: "calls (the (ctx (stopAmbience a1))) = calls c1 @ [Stop n 0]"
    by (simp add: stopAmbience_eq [OF c1(1)] td1)
  have C: "filter (\<lambda>e. isStop e \<and> n + 1 \<in> set (callIds e)) (calls c1 @ [Stop n 0]) =
      [Stop (n + 1) (t + 600)]"
    using fresh_no_stop [OF old, of "n + 1"]
    by (simp add: c1) (simp add: eerieCalls_def)
  have D: "filter isStop (drop (length (calls c1)) (calls (the (ctx (setAmbience p m a1))))) =
      [Stop n 0]" if "m \<noteq> Eerie" for m
    using setAmbience_switch_stops [OF c1(1) f(3,4) _ that, of p] f(5) that
    by (simp add: td1)
  have E: "filter isStop (drop (length (calls c1)) (calls (the (ctx (stop_timeout (stop a1)))))) =
      [Stop n 0]"
    using stop_timeout_stop_calls [OF c1(1) f(3)] by (auto simp: td1)
  have F: "runningIn (calls (the (ctx (stopAmbience (advanceTime d a1))))) (t + d) (n + 1) \<and>
      \<not> runningIn (calls (the (ctx (stopAmbience (advanceTime d a1))))) (t + d) n"
    if d: "0 \<le> d \<and> d < 600" for d
  proof -
    let ?c = "c1\<lparr>currentTime := currentTime c1 + d\<rparr>"
    have c: "ctx (advanceTime d a1) = Some ?c"
      by (simp add: advanceTime_def c1)
    have "teardownCalls (advanceTime d a1) = teardownCalls a1"
      by (rule teardownCalls_cong [where c' = ?c and c = c1])
        (simp_all add: advanceTime_def c1)
    then have cs: "calls (the (ctx (stopAmbience (advanceTime d a1)))) = calls c1 @ [Stop n 0]"
      by (simp add: stopAmbience_eq [OF c] td1)
    have o1: "\<not> started (calls c0 @ teardownCalls a0 @ rampCalls ag t) (n + 1)"
      using old by (rule fresh_not_started) simp
    have o2: "\<not> stoppedBy (calls c0 @ teardownCalls a0 @ rampCalls ag t) (t + d) (n + 1)"
      using old by (rule fresh_not_stopped) simp
    have "0 \<le> t + d" using t0 d by (simp add: t_def)
    then show ?thesis
      using o1 o2 d unfolding cs runningIn_def
      by (simp add: c1)
  qed
  show ?thesis
    unfolding Let_def a0_def [symmetric] a1_def [symmetric]
    using A B C D E F f(1,2) c0 g(2) c1(1)
    by (simp add: n_def [symmetric] t_def [symmetric] eerieCalls_def)
qed

theorem eerie_second_oscillator_untracked_witness:
  "reachable exPlatform exAudio \<and> currentAmbienceType exAudio \<noteq> Some Eerie \<and>
   ambienceNode exEerie = Some 2 \<and> lfo exEerie = None \<and>
   calls (the (ctx (stopAmbience exEerie))) = calls (the (ctx exEerie)) @ [Stop 2 0] \<and>
   filter (\<lambda>e. isStop e \<and> 3 \<in> set (callIds e)) (calls (the (ctx (stopAmbience exEerie)))) =
     [Stop 3 600] \<and>
   filter isStop (drop 26 (calls (the (ctx (setAmbience exPlatform Calm exEerie))))) =
     [Stop 2 0] \<and>
   runningIn (calls (the (ctx (stopAmbience (advanceTime 599 exEerie))))) 599 3 \<and>
   \<not> runningIn (calls (the (ctx (stopAmbience (advanceTime 599 exEerie))))) 599 2"
proof -
  have h: "currentAmbienceType exAudio \<noteq> Some Eerie"
    by (simp add: exAudio_eq)
  have n: "nextId (the (ctx (resume (init exPlatform exAudio)))) = 2"
      "currentTime (the (ctx (resume (init exPlatform exAudio)))) = 0"
    by (simp_all add: exAudio_eq init_def resume_def emit_def Let_def)
  have l: "length (calls (the (ctx exEerie))) = 26"
    by (simp add: exEerie_eq)
  note th = eerie_second_oscillator_untracked [OF exAudio_reachable h,
      unfolded Let_def n, folded exEerie_def]
  note th2 = th [THEN conjunct2]
  note th3 = th2 [THEN conjunct2]
  note th4 = th3 [THEN conjunct2]
  note th5 = th4 [THEN conjunct2]
  note th6 = th5 [THEN conjunct2]
  note th8 = th6 [THEN conjunct2, THEN conjunct2]
  have a1: "ambienceNode exEerie = Some 2" using th2 [THEN conjunct1] by simp
  have a2: "lfo exEerie = None" using th3 [THEN conjunct1] by simp
  have a3: "calls (the (ctx (stopAmbience exEerie))) = calls (the (ctx exEerie)) @ [Stop 2 0]"
    using th4 [THEN conjunct1] by simp
  have a4: "filter (\<lambda>e. isStop e \<and> 3 \<in> set (callIds e)) (calls (the (ctx (stopAmbience exEerie)))) =
         [Stop 3 600]"
    using th5 [THEN conjunct1] by simp
  have b: "\<forall>m. m \<noteq> Eerie \<longrightarrow>
      filter isStop (drop 26 (calls (the (ctx (setAmbience exPlatform m exEerie))))) = [Stop 2 0]"
    using th6 [THEN conjunct1] by (simp add: l)
  have c: "\<forall>d. 0 \<le> d \<and> d < 600 \<longrightarrow>
      runningIn (calls (the (ctx (stopAmbience (advanceTime d exEerie))))) (0 + d) (2 + 1) \<and>
      \<not> runningIn (calls (the (ctx (stopAmbience (advanceTime d exEerie))))) (0 + d) 2"
    using th8 .
  have b': "filter isStop (drop 26 (calls (the (ctx (setAmbience exPlatform Calm exEerie))))) =
      [Stop 2 0]"
    using b by simp
  have c': "runningIn (calls (the (ctx (stopAmbience (advanceTime 599 exEerie))))) 599 3 \<and>
      \<not> runningIn (calls (the (ctx (stopAmbience (advanceTime 599 exEerie))))) 599 2"
    using c [rule_format, of 599] by simp
  show ?thesis
    using exAudio_reachable h a1 a2 a3 a4 b' c' by blast
qed


text \<open>After eerie, the second oscillator (node 3) is still running when calm and chaos have followed.\<close>

lemma eerie_then_calm_then_chaos:
  "runningIn (calls (the (ctx (setAmbience exPlatform Chaos (setAmbience exPlatform Calm exEerie))))) 0 3 \<and>
   runningIn (calls (the (ctx (setAmbience exPlatform Chaos (setAmbience exPlatform Calm exEerie))))) 0 9"
  by (simp add: exEerie_eq setAmbience_def init_def resume_def stopAmbience_def tryStop_def
      buildNoise_def createNoiseBuffer_def createBuffer_def createBufferSource_def
      createBiquadFilter_def createNode_def emit_def Let_def runningIn_def)


section \<open>The typewriter\<close>

lemma ticks_Suc: "ticks (Suc n) tw = tick (ticks n tw)"
  by (simp add: ticks_def)

lemma ticks_0: "ticks 0 tw = tw"
  by (simp add: ticks_def)

lemma tick_idle: "intervals tw = [] \<Longrightarrow> tick tw = tw"
  by (simp add: tick_def)

lemma tick_reveal:
  assumes "intervals tw = [(k, \<lparr>twText = t, onComplete = oc, i = j\<rparr>)]" and "j < length t"
  shows "tick tw = tw\<lparr>displayedText := take (Suc j) t,
                      intervals := [(k, \<lparr>twText = t, onComplete = oc, i = Suc j\<rparr>)]\<rparr>"
  using assms by (simp add: tick_def callback_def)

lemma tick_complete:
  assumes "intervals tw = [(k, \<lparr>twText = t, onComplete = oc, i = j\<rparr>)]" and "\<not> j < length t"
  shows "tick tw = tw\<lparr>intervals := [],
                      completed := completed tw @ (case oc of None \<Rightarrow> [] | Some cb \<Rightarrow> [cb])\<rparr>"
  using assms by (simp add: tick_def callback_def clearInterval_def split: option.splits)

lemma ticks_reveal:
  assumes "intervals tw = [(k, \<lparr>twText = t, onComplete = oc, i = 0\<rparr>)]"
    and "displayedText tw = []"
  shows "n \<le> length t \<Longrightarrow>
           ticks n tw = tw\<lparr>displayedText := take n t,
                          intervals := [(k, \<lparr>twText = t, onComplete = oc, i = n\<rparr>)]\<rparr>"
proof (induction n)
  case 0
  then show ?case using assms by (simp add: ticks_0)
next
  case (Suc n)
  then have "ticks n tw = tw\<lparr>displayedText := take n t,
      intervals := [(k, \<lparr>twText = t, onComplete = oc, i = n\<rparr>)]\<rparr>"
    by simp
  moreover have "n < length t" using Suc.prems by simp
  ultimately show ?case
    by (simp add: ticks_Suc tick_reveal)
qed

lemma ticks_complete:
  assumes "intervals tw = [(k, \<lparr>twText = t, onComplete = oc, i = 0\<rparr>)]"
    and "displayedText tw = []"
  shows "length t < n \<Longrightarrow>
           ticks n tw = tw\<lparr>displayedText := t, intervals := [],
                          completed := completed tw @ (case oc of None \<Rightarrow> [] | Some cb \<Rightarrow> [cb])\<rparr>"
proof (induction n)
  case 0
  then show ?case by simp
next
  case (Suc n)
  show ?case
  proof (cases "length t < n")
    case True
    then show ?thesis using Suc.IH by (simp add: ticks_Suc tick_idle)
  next
    case False
    then have n: "n = length t" using Suc.prems by simp
    have "ticks n tw = tw\<lparr>displayedText := take n t,
        intervals := [(k, \<lparr>twText = t, onComplete = oc, i = n\<rparr>)]\<rparr>"
      using assms by (simp add: ticks_reveal n)
    then show ?thesis
      by (simp add: ticks_Suc tick_complete n)
  qed
qed

lemma mount_intervals:
  "intervals (mount t oc) = [(0, \<lparr>twText = t, onComplete = oc, i = 0\<rparr>)] \<and>
   displayedText (mount t oc) = [] \<and> completed (mount t oc) = [] \<and>
   intervalId (mount t oc) = Some 0 \<and> nextIntervalId (mount t oc) = 1"
  by (simp add: mount_def effect_def newTypewriterText_def Let_def)

lemma ticks_mount_shape:
  "intervalId (ticks n (mount t oc)) = Some 0 \<and> nextIntervalId (ticks n (mount t oc)) = 1 \<and>
   set (map fst (intervals (ticks n (mount t oc)))) \<subseteq> {0}"
proof (cases "n \<le> length t")
  case True
  then show ?thesis
    using ticks_reveal [of "mount t oc" 0 t oc n] by (simp add: mount_intervals)
next
  case False
  then show ?thesis
    using ticks_complete [of "mount t oc" 0 t oc n] by (simp add: mount_intervals)
qed

lemma restart_intervals:
  "intervals (restart t' oc' (ticks n (mount t oc))) = [(1, \<lparr>twText = t', onComplete = oc', i = 0\<rparr>)] \<and>
   displayedText (restart t' oc' (ticks n (mount t oc))) = [] \<and>
   completed (restart t' oc' (ticks n (mount t oc))) = completed (ticks n (mount t oc))"
proof -
  let ?tw = "ticks n (mount t oc)"
  have "set (map fst (intervals ?tw)) \<subseteq> {0}" "intervalId ?tw = Some 0" "nextIntervalId ?tw = 1"
    using ticks_mount_shape [of n t oc] by simp_all
  moreover from this(1) have "filter (\<lambda>(k', _). k' \<noteq> 0) (intervals ?tw) = []"
    by (auto simp: filter_empty_conv)
  ultimately show ?thesis
    by (simp add: restart_def cleanup_def clearInterval_def effect_def Let_def)
qed

lemma completed_mount:
  "completed (ticks n (mount t oc)) =
     (if length t < n then (case oc of None \<Rightarrow> [] | Some cb \<Rightarrow> [cb]) else [])"
proof (cases "n \<le> length t")
  case True
  then show ?thesis
    using ticks_reveal [of "mount t oc" 0 t oc n] by (simp add: mount_intervals)
next
  case False
  then show ?thesis
    using ticks_complete [of "mount t oc" 0 t oc n] by (simp add: mount_intervals)
qed

lemma displayed_mount:
  "displayedText (ticks n (mount t oc)) = take n t"
proof (cases "n \<le> length t")
  case True
  then show ?thesis
    using ticks_reveal [of "mount t oc" 0 t oc n] by (simp add: mount_intervals)
next
  case False
  then show ?thesis
    using ticks_complete [of "mount t oc" 0 t oc n] by (simp add: mount_intervals)
qed

lemma displayed_restart:
  "displayedText (ticks m (restart t' oc' (ticks n (mount t oc)))) = take m t'"
proof (cases "m \<le> length t'")
  case True
  then show ?thesis
    using ticks_reveal [of "restart t' oc' (ticks n (mount t oc))" 1 t' oc' m]
    by (simp add: restart_intervals)
next
  case False
  then show ?thesis
    using ticks_complete [of "restart t' oc' (ticks n (mount t oc))" 1 t' oc' m]
    by (simp add: restart_intervals)
qed

lemma completed_restart:
  "completed (ticks m (restart t' oc' (ticks n (mount t oc)))) =
     completed (ticks n (mount t oc)) @
     (if length t' < m then (case oc' of None \<Rightarrow> [] | Some cb \<Rightarrow> [cb]) else [])"
proof (cases "m \<le> length t'")
  case True
  then show ?thesis
    using ticks_reveal [of "restart t' oc' (ticks n (mount t oc))" 1 t' oc' m]
    by (simp add: restart_intervals)
next
  case False
  then show ?thesis
    using ticks_complete [of "restart t' oc' (ticks n (mount t oc))" 1 t' oc' m]
    by (simp add: restart_intervals)
qed

lemma intervals_mount:
  "n \<le> length t \<Longrightarrow> map fst (intervals (ticks n (mount t oc))) = [0]"
  using ticks_reveal [of "mount t oc" 0 t oc n] by (simp add: mount_intervals)

subsection \<open>The component with props that stay the same\<close>

text \<open>
  When \<open>text\<close> and \<open>onComplete\<close> are the same values in every render between the mount
  and the end of the reveal: the displayed text after \<open>k \<le> N\<close> ticks of the timer is the
  prefix of length \<open>k\<close>, so it is the full text after \<open>N\<close> ticks and not before; the
  callback has been called once after more than \<open>N\<close> ticks and never before, however
  many ticks follow.  When the props change after \<open>n \<le> N\<close> ticks, the timer of the first
  text is cleared and only the new timer is registered, the displayed text is empty,
  the new text is revealed prefix by prefix as the first was, and only the new callback
  is called, once.
\<close>

lemma reveal_with_fixed_props:
  "(\<forall>k \<le> length t. displayedText (ticks k (mount t oc)) = take k t) \<and>
   displayedText (ticks (length t) (mount t oc)) = t \<and>
   (\<forall>k < length t. displayedText (ticks k (mount t oc)) \<noteq> t) \<and>
   (\<forall>n. completed (ticks n (mount t oc)) =
      (if length t < n then (case oc of None \<Rightarrow> [] | Some cb \<Rightarrow> [cb]) else [])) \<and>
   (\<forall>n \<le> length t. \<forall>t' oc'.
      map fst (intervals (ticks n (mount t oc))) = [0] \<and>
      map fst (intervals (restart t' oc' (ticks n (mount t oc)))) = [1] \<and>
      displayedText (restart t' oc' (ticks n (mount t oc))) = [] \<and>
      (\<forall>k \<le> length t'.
         displayedText (ticks k (restart t' oc' (ticks n (mount t oc)))) = take k t') \<and>
      (\<forall>m. completed (ticks m (restart t' oc' (ticks n (mount t oc)))) =
         (if length t' < m then (case oc' of None \<Rightarrow> [] | Some cb \<Rightarrow> [cb]) else [])))"
proof -
  have a: "\<forall>k \<le> length t. displayedText (ticks k (mount t oc)) = take k t"
    by (simp add: displayed_mount)
  have b: "displayedText (ticks (length t) (mount t oc)) = t"
    by (simp add: displayed_mount)
  have c: "\<forall>k < length t. displayedText (ticks k (mount t oc)) \<noteq> t"
  proof (intro allI impI)
    fix k assume "k < length t"
    then have "length (take k t) \<noteq> length t" by simp
    then show "displayedText (ticks k (mount t oc)) \<noteq> t"
      unfolding displayed_mount by metis
  qed
  have d: "\<forall>n. completed (ticks n (mount t oc)) =
      (if length t < n then (case oc of None \<Rightarrow> [] | Some cb \<Rightarrow> [cb]) else [])"
    by (simp add: completed_mount)
  have e: "\<forall>n \<le> length t. \<forall>t' oc'.
      map fst (intervals (ticks n (mount t oc))) = [0] \<and>
      map fst (intervals (restart t' oc' (ticks n (mount t oc)))) = [1] \<and>
      displayedText (restart t' oc' (ticks n (mount t oc))) = [] \<and>
      (\<forall>k \<le> length t'.
         displayedText (ticks k (restart t' oc' (ticks n (mount t oc)))) = take k t') \<and>
      (\<forall>m. completed (ticks m (restart t' oc' (ticks n (mount t oc)))) =
         (if length t' < m then (case oc' of None \<Rightarrow> [] | Some cb \<Rightarrow> [cb]) else []))"
    by (simp add: intervals_mount restart_intervals displayed_restart completed_restart completed_mount)
  show ?thesis
    using a b c d e by blast
qed


subsection \<open>The component as GameCanvas renders it\<close>

lemma canvasTicks_Suc: "canvasTicks (Suc n) gc = timersFire (canvasTicks n gc)"
  by (simp add: canvasTicks_def)

lemma canvasTicks_add: "canvasTicks (m + n) gc = canvasTicks m (canvasTicks n gc)"
  by (simp add: canvasTicks_def funpow_add)

lemma uiTimer_onStage:
  "uiTimer (onStage t) =
     \<lparr>activeNarrative = t, showUI = True, textComplete = False, nextClosure = 1,
      typewriter = Some (mount t (Some 0)), completions = []\<rparr>"
  by (simp add: uiTimer_def setShowUI_def onStage_def render_def Let_def)

lemma first_reveal:
  "n \<le> length t \<Longrightarrow>
     canvasTicks n (uiTimer (onStage t)) =
       \<lparr>activeNarrative = t, showUI = True, textComplete = False, nextClosure = 1,
        typewriter = Some (ticks n (mount t (Some 0))), completions = []\<rparr>"
proof (induction n)
  case 0
  then show ?case by (simp add: canvasTicks_def uiTimer_onStage ticks_0)
next
  case (Suc n)
  then show ?case
    by (simp add: canvasTicks_Suc timersFire_def Let_def ticks_Suc [symmetric] completed_mount)
qed

lemma first_completion:
  "canvasTicks (Suc (length t)) (uiTimer (onStage t)) =
     \<lparr>activeNarrative = t, showUI = True, textComplete = True, nextClosure = 2,
      typewriter = Some (restart t (Some 1) (ticks (Suc (length t)) (mount t (Some 0)))),
      completions = [0]\<rparr>"
  by (simp add: canvasTicks_Suc first_reveal timersFire_def Let_def ticks_Suc [symmetric]
      completed_mount setTextComplete_def render_def)

lemma second_reveal:
  "canvasTicks (Suc (length t + m)) (uiTimer (onStage t)) =
     \<lparr>activeNarrative = t, showUI = True, textComplete = True, nextClosure = 2,
      typewriter = Some (ticks m (restart t (Some 1) (ticks (Suc (length t)) (mount t (Some 0))))),
      completions = 0 # (if length t < m then [1] else [])\<rparr>"
proof (induction m)
  case 0
  then show ?case by (simp add: first_completion ticks_0)
next
  case (Suc m)
  have "canvasTicks (Suc (length t + Suc m)) (uiTimer (onStage t)) =
      timersFire (canvasTicks (Suc (length t + m)) (uiTimer (onStage t)))"
    by (simp add: canvasTicks_def)
  with Suc show ?case
    by (simp add: timersFire_def Let_def ticks_Suc [symmetric]
        completed_restart completed_mount setTextComplete_def)
qed

text \<open>
  Claim C3.  In the program the completion callback does not fire exactly once per
  text.  \<open>GameCanvas\<close> shows a scene with a narrative \<open>t\<close> of length \<open>N\<close>; from the
  moment the element is rendered, the displayed text after \<open>k \<le> N\<close> ticks is the prefix
  of length \<open>k\<close> and no callback has been called.  Tick \<open>N + 1\<close> calls the callback of
  the first render; it sets \<open>textComplete\<close>, the component renders again with a new
  callback, the effect of the child runs again and the displayed text is empty.  The
  same text is then revealed a second time, prefix by prefix, and from tick
  \<open>2 * (N + 1)\<close> on two callbacks have been called for the one text: that of the
  first render and that of the second.
\<close>

theorem typewriter_completes_twice:
  "(\<forall>k \<le> length t.
      map_option displayedText (typewriter (canvasTicks k (uiTimer (onStage t)))) = Some (take k t) \<and>
      completions (canvasTicks k (uiTimer (onStage t))) = []) \<and>
   completions (canvasTicks (Suc (length t)) (uiTimer (onStage t))) = [0] \<and>
   map_option displayedText (typewriter (canvasTicks (Suc (length t)) (uiTimer (onStage t)))) = Some [] \<and>
   (\<forall>k \<le> length t.
      map_option displayedText (typewriter (canvasTicks (Suc (length t) + k) (uiTimer (onStage t))))
        = Some (take k t) \<and>
      completions (canvasTicks (Suc (length t) + k) (uiTimer (onStage t))) = [0]) \<and>
   (\<forall>n \<ge> 2 * Suc (length t). completions (canvasTicks n (uiTimer (onStage t))) = [0, 1])"
proof -
  have a: "\<forall>k \<le> length t.
      map_option displayedText (typewriter (canvasTicks k (uiTimer (onStage t)))) = Some (take k t) \<and>
      completions (canvasTicks k (uiTimer (onStage t))) = []"
    by (simp add: first_reveal displayed_mount)
  have b: "completions (canvasTicks (Suc (length t)) (uiTimer (onStage t))) = [0]"
    "map_option displayedText (typewriter (canvasTicks (Suc (length t)) (uiTimer (onStage t)))) = Some []"
    by (simp_all add: first_completion restart_intervals)
  have c: "\<forall>k \<le> length t.
      map_option displayedText (typewriter (canvasTicks (Suc (length t) + k) (uiTimer (onStage t))))
        = Some (take k t) \<and>
      completions (canvasTicks (Suc (length t) + k) (uiTimer (onStage t))) = [0]"
    by (simp add: second_reveal displayed_restart)
  have d: "\<forall>n \<ge> 2 * Suc (length t). completions (canvasTicks n (uiTimer (onStage t))) = [0, 1]"
  proof (intro allI impI)
    fix n assume "2 * Suc (length t) \<le> n"
    then have "n = Suc (length t + (n - Suc (length t)))" "length t < n - Suc (length t)"
      by simp_all
    then obtain m where "n = Suc (length t + m)" "length t < m"
      by blast
    then show "completions (canvasTicks n (uiTimer (onStage t))) = [0, 1]"
      by (simp add: second_reveal)
  qed
  show ?thesis using a b c d by blast
qed

theorem typewriter_completes_twice_witness:
  "map_option displayedText (typewriter (canvasTicks 1 (uiTimer (onStage (lit ''ab''))))) = Some (lit ''a'') \<and>
   map_option displayedText (typewriter (canvasTicks 2 (uiTimer (onStage (lit ''ab''))))) = Some (lit ''ab'') \<and>
   completions (canvasTicks 2 (uiTimer (onStage (lit ''ab'')))) = [] \<and>
   completions (canvasTicks 3 (uiTimer (onStage (lit ''ab'')))) = [0] \<and>
   map_option displayedText (typewriter (canvasTicks 3 (uiTimer (onStage (lit ''ab''))))) = Some [] \<and>
   map_option displayedText (typewriter (canvasTicks 4 (uiTimer (onStage (lit ''ab''))))) = Some (lit ''a'') \<and>
   completions (canvasTicks 5 (uiTimer (onStage (lit ''ab'')))) = [0] \<and>
   completions (canvasTicks 6 (uiTimer (onStage (lit ''ab'')))) = [0, 1] \<and>
   completions (canvasTicks 100 (uiTimer (onStage (lit ''ab'')))) = [0, 1]"
proof -
  note th = typewriter_completes_twice [of "lit ''ab''"]
  have l: "length (lit ''ab'') = 2"
    by (simp add: lit_def)
  have n: "Suc 2 = 3" "Suc 2 + 1 = 4" "Suc 2 + 2 = 5"
    by simp_all
  have a: "map_option displayedText (typewriter (canvasTicks 1 (uiTimer (onStage (lit ''ab''))))) = Some (take 1 (lit ''ab''))"
      "map_option displayedText (typewriter (canvasTicks 2 (uiTimer (onStage (lit ''ab''))))) = Some (take 2 (lit ''ab''))"
      "completions (canvasTicks 2 (uiTimer (onStage (lit ''ab'')))) = []"
    using th [THEN conjunct1, THEN spec, of 1] th [THEN conjunct1, THEN spec, of 2] l by simp_all
  have b: "completions (canvasTicks 3 (uiTimer (onStage (lit ''ab'')))) = [0]"
      "map_option displayedText (typewriter (canvasTicks 3 (uiTimer (onStage (lit ''ab''))))) = Some []"
    using th [THEN conjunct2, THEN conjunct1] th [THEN conjunct2, THEN conjunct2, THEN conjunct1]
    unfolding l n by simp_all
  have c: "map_option displayedText (typewriter (canvasTicks 4 (uiTimer (onStage (lit ''ab''))))) = Some (take 1 (lit ''ab''))"
      "completions (canvasTicks 5 (uiTimer (onStage (lit ''ab'')))) = [0]"
    using th [THEN conjunct2, THEN conjunct2, THEN conjunct2, THEN conjunct1, THEN spec, of 1]
      th [THEN conjunct2, THEN conjunct2, THEN conjunct2, THEN conjunct1, THEN spec, of 2]
    unfolding l n by simp_all
  have d: "completions (canvasTicks 6 (uiTimer (onStage (lit ''ab'')))) = [0, 1]"
      "completions (canvasTicks 100 (uiTimer (onStage (lit ''ab'')))) = [0, 1]"
    using th [THEN conjunct2, THEN conjunct2, THEN conjunct2, THEN conjunct2, THEN spec, of 6]
      th [THEN conjunct2, THEN conjunct2, THEN conjunct2, THEN conjunct2, THEN spec, of 100] l
    by simp_all
  show ?thesis
    using a b c d by (simp add: lit_def)
qed

end
